theory Spec2Isabelle
  imports Complex_Main
begin

section \<open>Errors\<close>

text \<open>
  Every \<^verbatim>\<open>throw\<close> and every \<^verbatim>\<open>assert\<close> of the sources is a value of this type;
  a function that can raise returns \<open>error + 'a\<close>, with \<open>Inl\<close> for the error.
\<close>

datatype error = gbtIndexException | gbtDimensionException | AssertionFailure

section \<open>Rectangular arrays (libgambit/grarray.h)\<close>

text \<open>
  \<^verbatim>\<open>gbtRectArray<T>\<close> holds its four bounds and \<^verbatim>\<open>T **data\<close>, whose row and column
  pointers are shifted so that \<^verbatim>\<open>data[r][c]\<close> is addressed by the declared indices.
  The store is a function of the two indices.  The bounds are C \<^verbatim>\<open>int\<close>s; only
  comparisons are made on them here, so they are integers of the model.
\<close>

record 'a gbtRectArray =
  minrow :: int
  maxrow :: int
  mincol :: int
  maxcol :: int
  data :: "int \<Rightarrow> int \<Rightarrow> 'a"

definition CheckRow :: "'a gbtRectArray \<Rightarrow> int \<Rightarrow> bool" where
  "CheckRow A row = (minrow A \<le> row \<and> row \<le> maxrow A)"

definition CheckColumn :: "'a gbtRectArray \<Rightarrow> int \<Rightarrow> bool" where
  "CheckColumn A col = (mincol A \<le> col \<and> col \<le> maxcol A)"

definition Check :: "'a gbtRectArray \<Rightarrow> int \<Rightarrow> int \<Rightarrow> bool" where
  "Check A row col = (CheckRow A row \<and> CheckColumn A col)"

text \<open>
  \<^verbatim>\<open>gbtRectArray(int minr, int maxr, int minc, int maxc)\<close> allocates the rows with
  \<^verbatim>\<open>new T[...]\<close> and stores nothing in them.  What the fresh storage holds is the
  argument \<open>fresh\<close>.
\<close>

definition gbtRectArray_new ::
  "int \<Rightarrow> int \<Rightarrow> int \<Rightarrow> int \<Rightarrow> (int \<Rightarrow> int \<Rightarrow> 'a) \<Rightarrow> 'a gbtRectArray" where
  "gbtRectArray_new minr maxr minc maxc fresh =
     \<lparr>minrow = minr, maxrow = maxr, mincol = minc, maxcol = maxc, data = fresh\<rparr>"

text \<open>
  \<^verbatim>\<open>operator()(int r, int c)\<close>: throws when \<^verbatim>\<open>Check(r, c)\<close> fails, otherwise yields
  \<^verbatim>\<open>data[r][c]\<close>.  The result carries the array as it is after the call.
\<close>

definition operator_call :: "'a gbtRectArray \<Rightarrow> int \<Rightarrow> int \<Rightarrow> error + ('a \<times> 'a gbtRectArray)" where
  "operator_call A r c =
     (if \<not> Check A r c then Inl gbtIndexException else Inr (data A r c, A))"

text \<open>
  The non-const overload returns \<^verbatim>\<open>T &\<close>; \<^verbatim>\<open>A(r, c) = v\<close> stores through it.
\<close>

definition operator_call_assign ::
  "'a gbtRectArray \<Rightarrow> int \<Rightarrow> int \<Rightarrow> 'a \<Rightarrow> error + 'a gbtRectArray" where
  "operator_call_assign A r c v =
     (if \<not> Check A r c then Inl gbtIndexException
      else Inr (A\<lparr>data := (data A)(r := (data A r)(c := v))\<rparr>))"

text \<open>
  \<^verbatim>\<open>Transpose\<close>: the inner loop is
  \<^verbatim>\<open>for (int j = mincol; j <= maxrow; j++) tmp(j,i) = (*this)(i,j);\<close>
  with \<^verbatim>\<open>maxrow\<close> as its bound, as the source has it.
\<close>

function Transpose_cols ::
  "'a gbtRectArray \<Rightarrow> int \<Rightarrow> int \<Rightarrow> 'a gbtRectArray \<Rightarrow> error + 'a gbtRectArray" where
  "Transpose_cols A i j tmp =
     (if j \<le> maxrow A then
        (case operator_call A i j of
           Inl e \<Rightarrow> Inl e
         | Inr (v, _) \<Rightarrow>
             (case operator_call_assign tmp j i v of
                Inl e \<Rightarrow> Inl e
              | Inr tmp' \<Rightarrow> Transpose_cols A i (j + 1) tmp'))
      else Inr tmp)"
  by pat_completeness auto
termination
  by (relation "measure (\<lambda>(A, i, j, tmp). nat (maxrow A + 1 - j))") auto

declare Transpose_cols.simps [simp del]

function Transpose_rows ::
  "'a gbtRectArray \<Rightarrow> int \<Rightarrow> 'a gbtRectArray \<Rightarrow> error + 'a gbtRectArray" where
  "Transpose_rows A i tmp =
     (if i \<le> maxrow A then
        (case Transpose_cols A i (mincol A) tmp of
           Inl e \<Rightarrow> Inl e
         | Inr tmp' \<Rightarrow> Transpose_rows A (i + 1) tmp')
      else Inr tmp)"
  by pat_completeness auto
termination
  by (relation "measure (\<lambda>(A, i, tmp). nat (maxrow A + 1 - i))") auto

declare Transpose_rows.simps [simp del]

definition Transpose :: "'a gbtRectArray \<Rightarrow> (int \<Rightarrow> int \<Rightarrow> 'a) \<Rightarrow> error + 'a gbtRectArray" where
  "Transpose A fresh =
     Transpose_rows A (minrow A)
       (gbtRectArray_new (mincol A) (maxcol A) (minrow A) (maxrow A) fresh)"

section \<open>The game, behavior profiles and the collaborators of eliap.cc\<close>

text \<open>
  eliap.cc reads the extensive form game only through a few queries.  The record holds
  what they return: the number of players, of information sets of a player and of
  actions of an information set (all indexed from 1, as the source's lists are), the
  subgame root of the first member node of an information set
  (\<^verbatim>\<open>infoset->GetMember(1)->GetSubgameRoot()\<close>) and the list that
  \<^verbatim>\<open>MarkedSubgameRoots\<close> fills.  A \<^verbatim>\<open>Node *\<close> is an address.
\<close>

type_synonym Node = nat

record Efg =
  NumPlayers :: nat
  NumInfosets :: "nat \<Rightarrow> nat"
  NumActions :: "nat \<Rightarrow> nat \<Rightarrow> nat"
  FirstMemberSubgameRoot :: "nat \<Rightarrow> nat \<Rightarrow> Node"
  MarkedSubgameRoots :: "Node list"

text \<open>
  A \<^verbatim>\<open>gDPVector<double>\<close> is read and written by \<^verbatim>\<open>(player, infoset, action)\<close>.  It is a
  function of the three indices; a \<^verbatim>\<open>gVector<double>\<close> of the same length is taken
  through the same indexing, so that \<^verbatim>\<open>_p = v\<close> replaces the entries of the profile by
  those of \<open>v\<close>.  The vector classes are not part of the sources at hand: an access
  outside the dimensionality is not modelled.  \<^verbatim>\<open>double\<close> is the type of real numbers:
  rounding, overflow and NaN are outside the model.

  A \<^verbatim>\<open>BehavProfile<double>\<close> knows its game (\<^verbatim>\<open>BelongsTo()\<close>), the number of active
  actions its support gives each information set (\<^verbatim>\<open>GetEFSupport().NumActions(pl, iset)\<close>)
  and its probabilities.
\<close>

type_synonym gDPVector = "nat \<Rightarrow> nat \<Rightarrow> nat \<Rightarrow> real"

record BehavProfile =
  BelongsTo :: Efg
  SupportNumActions :: "nat \<Rightarrow> nat \<Rightarrow> nat"
  probs :: gDPVector

section \<open>The Liapunov function (eliap.cc, EFLiapFunc)\<close>

text \<open>
  The members of \<^verbatim>\<open>EFLiapFunc\<close>: \<^verbatim>\<open>_nevals\<close>, \<^verbatim>\<open>_efg\<close>, \<^verbatim>\<open>_p\<close>, \<^verbatim>\<open>_cpay\<close>.  The counter
  is a \<^verbatim>\<open>long\<close>; it is an integer of the model (its overflow is undefined in C++).
\<close>

record EFLiapFunc =
  F_nevals :: int
  F_efg :: Efg
  F_p :: BehavProfile
  F_cpay :: gDPVector

text \<open>
  \<^verbatim>\<open>EFLiapParams\<close>, with the values its constructor gives.  The members \<^verbatim>\<open>tracefile\<close>
  and \<^verbatim>\<open>status\<close> are references to objects outside; they belong to the world below.
\<close>

record EFLiapParams =
  trace :: int
  nTries :: int
  stopAfter :: int
  maxits1 :: int
  maxitsN :: int
  tol1 :: real
  tolN :: real

definition EFLiapParams_new :: EFLiapParams where
  "EFLiapParams_new = \<lparr>trace = 0, nTries = 10, stopAfter = 1, maxits1 = 100, maxitsN = 20,
     tol1 = 2 / 10 ^ 10, tolN = 1 / 10 ^ 10\<rparr>"

text \<open>
  What one call of \<^verbatim>\<open>Powell\<close> does, as far as eliap.cc can see it: its return value,
  the point \<^verbatim>\<open>p\<close> and the direction matrix \<^verbatim>\<open>xi\<close> as it leaves them, \<^verbatim>\<open>fret\<close> and
  \<^verbatim>\<open>iter\<close>, and the arguments of the calls of \<^verbatim>\<open>func.Value\<close> it made, in order (the
  private members of the function object change through \<^verbatim>\<open>Value\<close> only).
\<close>

record Powell_result =
  found :: bool
  p_out :: gDPVector
  xi_out :: "real list list"
  fret :: real
  iter :: int
  evals :: "gDPVector list"

text \<open>
  The collaborators that are declared \<^verbatim>\<open>extern\<close> or live in other classes are
  arguments of the model, collected in one record.  \<open>'w\<close> is the state of the world
  outside eliap.cc: the random generator behind \<^verbatim>\<open>Uniform()\<close>, the \<^verbatim>\<open>gStatus\<close> object
  that \<^verbatim>\<open>params.status\<close> refers to and whoever sets it, the trace file.
  \<^item> \<open>CondPayoff\<close>: what \<^verbatim>\<open>tmp.CondPayoff(_cpay, probs)\<close> stores in \<^verbatim>\<open>_cpay\<close>;
  \<^item> \<open>Uniform\<close>: one draw;
  \<^item> \<open>Project\<close>: \<^verbatim>\<open>Project(foo, dim)\<close>, as the new contents of \<^verbatim>\<open>foo\<close>;
  \<^item> \<open>Powell\<close>: one call of the minimizer on the point, the directions, the function
    object and the parameters;
  \<^item> \<open>status_Get\<close>, \<open>status_Reset\<close>: \<^verbatim>\<open>params.status.Get()\<close> and \<^verbatim>\<open>params.status.Reset()\<close>;
  \<^item> \<open>BehavProfile_new\<close>: the profile that \<^verbatim>\<open>BehavProfile<double> bp(E)\<close> constructs.
\<close>

record 'w externals =
  CondPayoff :: "BehavProfile \<Rightarrow> gDPVector"
  Uniform :: "'w \<Rightarrow> real \<times> 'w"
  Project :: "real list \<Rightarrow> nat list \<Rightarrow> real list"
  Powell :: "'w \<Rightarrow> BehavProfile \<Rightarrow> real list list \<Rightarrow> EFLiapFunc \<Rightarrow> EFLiapParams \<Rightarrow>
               Powell_result \<times> 'w"
  status_Get :: "'w \<Rightarrow> bool"
  status_Reset :: "'w \<Rightarrow> 'w"
  BehavProfile_new :: "Efg \<Rightarrow> BehavProfile"

definition EFLiapFunc_new :: "Efg \<Rightarrow> BehavProfile \<Rightarrow> gDPVector \<Rightarrow> EFLiapFunc" where
  "EFLiapFunc_new E start fresh = \<lparr>F_nevals = 0, F_efg = E, F_p = start, F_cpay = fresh\<rparr>"

definition NumEvals :: "EFLiapFunc \<Rightarrow> int" where
  "NumEvals F = F_nevals F"

definition BIG1 :: real where "BIG1 = 10000.0"
definition BIG2 :: real where "BIG2 = 100.0"

text \<open>
  The body of the first loop over the actions of an information set: the running
  \<^verbatim>\<open>avg\<close>, \<^verbatim>\<open>sum\<close> and \<^verbatim>\<open>result\<close>.
\<close>

definition Value_prob_step ::
  "gDPVector \<Rightarrow> gDPVector \<Rightarrow> nat \<Rightarrow> nat \<Rightarrow> real \<times> real \<times> real \<Rightarrow> nat \<Rightarrow> real \<times> real \<times> real" where
  "Value_prob_step p cpay i j = (\<lambda>(avg, sum, result) k.
     let x = p i j k;
         avg = avg + x * cpay i j k;
         sum = sum + x;
         x = (if x > 0.0 then 0.0 else x)
     in (avg, sum, result + BIG1 * x * x))"

text \<open>The body of the second loop over the actions.\<close>

definition Value_payoff_step :: "gDPVector \<Rightarrow> nat \<Rightarrow> nat \<Rightarrow> real \<Rightarrow> real \<Rightarrow> nat \<Rightarrow> real" where
  "Value_payoff_step cpay i j avg = (\<lambda>result k.
     let x = cpay i j k - avg;
         x = (if x < 0.0 then 0.0 else x)
     in result + x * x)"

text \<open>The body of the loop over the information sets of player \<open>i\<close>.\<close>

definition Value_infoset :: "Efg \<Rightarrow> gDPVector \<Rightarrow> gDPVector \<Rightarrow> nat \<Rightarrow> real \<Rightarrow> nat \<Rightarrow> real" where
  "Value_infoset E p cpay i = (\<lambda>result j.
     let n = NumActions E i j;
         (avg, sum, result) = foldl (Value_prob_step p cpay i j) (0.0, 0.0, result) [1..<Suc n];
         result = foldl (Value_payoff_step cpay i j avg) result [1..<Suc n];
         x = sum - 1.0
     in result + BIG2 * x * x)"

text \<open>The body of the loop over the players.\<close>

definition Value_player :: "Efg \<Rightarrow> gDPVector \<Rightarrow> gDPVector \<Rightarrow> real \<Rightarrow> nat \<Rightarrow> real" where
  "Value_player E p cpay = (\<lambda>result i.
     foldl (Value_infoset E p cpay i) result [1..<Suc (NumInfosets E i)])"

text \<open>
  \<^verbatim>\<open>EFLiapFunc::Value\<close>.  The function returns the value and the object as the call
  leaves it.
\<close>

definition Value :: "'w externals \<Rightarrow> EFLiapFunc \<Rightarrow> gDPVector \<Rightarrow> real \<times> EFLiapFunc" where
  "Value ext F v =
     (let F = F\<lparr>F_nevals := F_nevals F + 1\<rparr>;
          F = F\<lparr>F_p := (F_p F)\<lparr>probs := v\<rparr>\<rparr>;
          tmp = F_p F;
          F = F\<lparr>F_cpay := CondPayoff ext tmp\<rparr>;
          result = foldl (Value_player (F_efg F) (probs (F_p F)) (F_cpay F)) 0.0
                     [1..<Suc (NumPlayers (F_efg F))]
      in (result, F))"

section \<open>Random profiles (eliap.cc, PickRandomProfile)\<close>

text \<open>\<^verbatim>\<open>p(pl, iset, act) = x\<close> on a \<^verbatim>\<open>gDPVector\<close>.\<close>

definition assign3 :: "gDPVector \<Rightarrow> nat \<Rightarrow> nat \<Rightarrow> nat \<Rightarrow> real \<Rightarrow> gDPVector" where
  "assign3 p pl iset act x = p(pl := (p pl)(iset := (p pl iset)(act := x)))"

text \<open>
  \<^verbatim>\<open>do tmp = Uniform(); while (tmp + sum > 1.0);\<close>  Nothing bounds the number of draws, so
  the loop is a partial function: \<open>None\<close> when it never ends.  \<open>psum\<close> is the source's
  \<^verbatim>\<open>sum\<close>.
\<close>

partial_function (option) PickRandom_draw ::
  "('w \<Rightarrow> real \<times> 'w) \<Rightarrow> real \<Rightarrow> 'w \<Rightarrow> (real \<times> 'w) option" where
  "PickRandom_draw U psum w =
     (case U w of (tmp, w') \<Rightarrow>
        if tmp + psum > 1.0 then PickRandom_draw U psum w' else Some (tmp, w'))"

text \<open>
  The loop \<^verbatim>\<open>for (act = 1; act < NumActions(pl, iset); act++)\<close> over the list of its
  indices, on the profile, \<^verbatim>\<open>psum\<close> and the world.
\<close>

fun PickRandom_actions ::
  "'w externals \<Rightarrow> nat \<Rightarrow> nat \<Rightarrow> nat list \<Rightarrow> gDPVector \<times> real \<times> 'w \<Rightarrow>
     (gDPVector \<times> real \<times> 'w) option" where
  "PickRandom_actions ext pl iset [] s = Some s"
| "PickRandom_actions ext pl iset (act # acts) (p, psum, w) =
     (case PickRandom_draw (Uniform ext) psum w of
        None \<Rightarrow> None
      | Some (tmp, w') \<Rightarrow>
          PickRandom_actions ext pl iset acts (assign3 p pl iset act tmp, psum + tmp, w'))"

text \<open>
  The body of the loop over the information sets.  When the loop over the actions ends,
  \<^verbatim>\<open>act\<close> is \<^verbatim>\<open>NumActions(pl, iset)\<close>, or \<open>1\<close> when that number is below \<open>1\<close>.
\<close>

definition PickRandom_infoset ::
  "'w externals \<Rightarrow> (nat \<Rightarrow> nat \<Rightarrow> nat) \<Rightarrow> nat \<Rightarrow> nat \<Rightarrow> gDPVector \<times> 'w \<Rightarrow> (gDPVector \<times> 'w) option" where
  "PickRandom_infoset ext na pl iset = (\<lambda>(p, w).
     case PickRandom_actions ext pl iset [1..<na pl iset] (p, 0.0, w) of
       None \<Rightarrow> None
     | Some (p, psum, w) \<Rightarrow> Some (assign3 p pl iset (max 1 (na pl iset)) (1.0 - psum), w))"

text \<open>A counted loop whose body may fail to return.\<close>

fun for_each :: "nat list \<Rightarrow> (nat \<Rightarrow> 's \<Rightarrow> 's option) \<Rightarrow> 's \<Rightarrow> 's option" where
  "for_each [] body s = Some s"
| "for_each (i # is) body s =
     (case body i s of None \<Rightarrow> None | Some s' \<Rightarrow> for_each is body s')"

definition PickRandomProfile ::
  "'w externals \<Rightarrow> BehavProfile \<Rightarrow> 'w \<Rightarrow> (BehavProfile \<times> 'w) option" where
  "PickRandomProfile ext p w =
     (case for_each [1..<Suc (NumPlayers (BelongsTo p))]
             (\<lambda>pl. for_each [1..<Suc (NumInfosets (BelongsTo p) pl)]
                (\<lambda>iset. PickRandom_infoset ext (SupportNumActions p) pl iset))
             (probs p, w) of
        None \<Rightarrow> None
      | Some (v, w') \<Rightarrow> Some (p\<lparr>probs := v\<rparr>, w'))"

section \<open>The search driver (eliap.cc, Liap)\<close>

text \<open>
  A \<^verbatim>\<open>BehavSolution<double>\<close> as \<^verbatim>\<open>AddSolution\<close> makes it: the profile, the tag
  \<^verbatim>\<open>EfgAlg_LIAP\<close> and the value given to \<^verbatim>\<open>SetLiap\<close>.
\<close>

datatype EfgAlgType = EfgAlg_LIAP

record BehavSolution =
  sol_profile :: BehavProfile
  sol_creator :: EfgAlgType
  sol_liap :: real

definition AddSolution :: "BehavSolution list \<Rightarrow> BehavProfile \<Rightarrow> real \<Rightarrow> BehavSolution list" where
  "AddSolution solutions profile value =
     solutions @ [\<lparr>sol_profile = profile, sol_creator = EfgAlg_LIAP, sol_liap = value\<rparr>]"

text \<open>
  \<^verbatim>\<open>p.Lengths()\<close>, the number of actions of each information set in turn, and
  \<^verbatim>\<open>p.Length()\<close>, their sum.
\<close>

definition Lengths :: "BehavProfile \<Rightarrow> nat list" where
  "Lengths p = concat (map (\<lambda>pl. map (\<lambda>iset. SupportNumActions p pl iset)
                                    [1..<Suc (NumInfosets (BelongsTo p) pl)])
                           [1..<Suc (NumPlayers (BelongsTo p))])"

definition Length :: "BehavProfile \<Rightarrow> nat" where
  "Length p = sum_list (Lengths p)"

text \<open>
  \<^verbatim>\<open>InitMatrix\<close>: the matrix, a list of rows, becomes the identity, and every row is
  replaced by its projection.
\<close>

definition MakeIdent :: "real list list \<Rightarrow> real list list" where
  "MakeIdent xi = map (\<lambda>i. map (\<lambda>j. if i = j then 1 else 0) [1..<Suc (length xi)])
                      [1..<Suc (length xi)]"

definition InitMatrix :: "'w externals \<Rightarrow> real list list \<Rightarrow> nat list \<Rightarrow> real list list" where
  "InitMatrix ext xi dims = map (\<lambda>foo. Project ext foo dims) (MakeIdent xi)"

text \<open>
  The variables of \<^verbatim>\<open>Liap\<close> that live across the iterations of its loop, the solution
  list and the world.  \<^verbatim>\<open>i\<close> and \<^verbatim>\<open>nTries\<close> are C \<^verbatim>\<open>int\<close>s, integers of the model
  (\<^verbatim>\<open>i++\<close> overflows only when \<^verbatim>\<open>nTries\<close> is \<^verbatim>\<open>INT_MAX\<close>).
\<close>

record 'w Liap_state =
  L_i :: int
  L_p :: BehavProfile
  L_xi :: "real list list"
  L_F :: EFLiapFunc
  L_value :: real
  L_iter :: int
  L_found :: bool
  L_solutions :: "BehavSolution list"
  L_world :: 'w

text \<open>The condition of the loop.\<close>

definition Liap_cond :: "'w externals \<Rightarrow> EFLiapParams \<Rightarrow> 'w Liap_state \<Rightarrow> bool" where
  "Liap_cond ext params s =
     (\<not> status_Get ext (L_world s) \<and> L_i s \<le> nTries params \<and>
      (stopAfter params = 0 \<or> int (length (L_solutions s)) < stopAfter params))"

text \<open>
  The first half of the body: \<^verbatim>\<open>if (i > 1) PickRandomProfile(p);\<close>, \<^verbatim>\<open>InitMatrix\<close> and the
  call of \<^verbatim>\<open>Powell\<close>.  It yields the profile handed to \<^verbatim>\<open>Powell\<close>, what \<^verbatim>\<open>Powell\<close> did
  and the world after it.
\<close>

definition Liap_attempt ::
  "'w externals \<Rightarrow> EFLiapParams \<Rightarrow> 'w Liap_state \<Rightarrow> (BehavProfile \<times> Powell_result \<times> 'w) option" where
  "Liap_attempt ext params s =
     (case (if L_i s > 1 then PickRandomProfile ext (L_p s) (L_world s)
            else Some (L_p s, L_world s)) of
        None \<Rightarrow> None
      | Some (p, w) \<Rightarrow>
          let xi = InitMatrix ext (L_xi s) (Lengths p);
              (r, w) = Powell ext w p xi (L_F s) params
          in Some (p, r, w))"

text \<open>
  The whole body, followed by \<^verbatim>\<open>i++\<close>.  The function object after \<^verbatim>\<open>Powell\<close> is the one
  before with \<^verbatim>\<open>Value\<close> called on each point that \<^verbatim>\<open>Powell\<close> evaluated.
\<close>

definition Liap_iteration ::
  "'w externals \<Rightarrow> EFLiapParams \<Rightarrow> 'w Liap_state \<Rightarrow> 'w Liap_state option" where
  "Liap_iteration ext params s =
     (case Liap_attempt ext params s of
        None \<Rightarrow> None
      | Some (p, r, w) \<Rightarrow>
          let F = foldl (\<lambda>F v. snd (Value ext F v)) (L_F s) (evals r);
              p = p\<lparr>probs := p_out r\<rparr>;
              solutions = (if found r then AddSolution (L_solutions s) p (fret r)
                           else L_solutions s);
              w = (if status_Get ext w then status_Reset ext w else w)
          in Some \<lparr>L_i = L_i s + 1, L_p = p, L_xi = xi_out r, L_F = F,
                   L_value = fret r, L_iter = iter r, L_found = found r,
                   L_solutions = solutions, L_world = w\<rparr>)"

lemma Liap_iteration_i: "Liap_iteration ext params s = Some s' \<Longrightarrow> L_i s' = L_i s + 1"
  by (auto simp: Liap_iteration_def Let_def split: option.splits prod.splits if_splits)

text \<open>The loop, from the state at its head to the state in which it ends.\<close>

function Liap_loop ::
  "'w externals \<Rightarrow> EFLiapParams \<Rightarrow> 'w Liap_state \<Rightarrow> 'w Liap_state option" where
  "Liap_loop ext params s =
     (if Liap_cond ext params s then
        (case Liap_iteration ext params s of
           None \<Rightarrow> None
         | Some s' \<Rightarrow> Liap_loop ext params s')
      else Some s)"
  by pat_completeness auto
termination
  by (relation "measure (\<lambda>(ext, params, s). nat (nTries params + 1 - L_i s))")
     (auto simp: Liap_cond_def dest: Liap_iteration_i)

declare Liap_loop.simps [simp del]

text \<open>
  The same loop, returning every state in which its condition was tested, first to
  last: the run of the loop.
\<close>

function Liap_run ::
  "'w externals \<Rightarrow> EFLiapParams \<Rightarrow> 'w Liap_state \<Rightarrow> 'w Liap_state list option" where
  "Liap_run ext params s =
     (if Liap_cond ext params s then
        (case Liap_iteration ext params s of
           None \<Rightarrow> None
         | Some s' \<Rightarrow> map_option ((#) s) (Liap_run ext params s'))
      else Some [s])"
  by pat_completeness auto
termination
  by (relation "measure (\<lambda>(ext, params, s). nat (nTries params + 1 - L_i s))")
     (auto simp: Liap_cond_def dest: Liap_iteration_i)

declare Liap_run.simps [simp del]

text \<open>
  \<^verbatim>\<open>Liap\<close>.  The result is the return value, the solution list, \<^verbatim>\<open>nevals\<close>, \<^verbatim>\<open>niters\<close>
  and the world.  \<^verbatim>\<open>_cpay\<close>, \<^verbatim>\<open>xi\<close>, \<^verbatim>\<open>value\<close>, \<^verbatim>\<open>iter\<close> and \<^verbatim>\<open>found\<close> are not
  initialised and are written before they are read; in the model they start as zeros
  and \<open>False\<close>.
\<close>

definition Liap_init ::
  "Efg \<Rightarrow> BehavProfile \<Rightarrow> BehavSolution list \<Rightarrow> 'w \<Rightarrow> 'w Liap_state" where
  "Liap_init E start solutions w =
     \<lparr>L_i = 1, L_p = start,
      L_xi = replicate (Length start) (replicate (Length start) 0),
      L_F = EFLiapFunc_new E start (\<lambda>_ _ _. 0),
      L_value = 0, L_iter = 0, L_found = False,
      L_solutions = solutions, L_world = w\<rparr>"

definition Liap ::
  "'w externals \<Rightarrow> Efg \<Rightarrow> EFLiapParams \<Rightarrow> BehavProfile \<Rightarrow> BehavSolution list \<Rightarrow> 'w \<Rightarrow>
     (bool \<times> BehavSolution list \<times> int \<times> int \<times> 'w) option" where
  "Liap ext E params start solutions w =
     (case Liap_loop ext params (Liap_init E start solutions w) of
        None \<Rightarrow> None
      | Some s \<Rightarrow>
          Some (length (L_solutions s) > 0, L_solutions s, NumEvals (L_F s), 0, L_world s))"

section \<open>Solving by subgames (eliap.cc, EFLiapBySubgame)\<close>

text \<open>
  The members of \<^verbatim>\<open>EFLiapBySubgame\<close> that eliap.cc uses.  \<^verbatim>\<open>infoset_subgames\<close> is a
  \<^verbatim>\<open>gPVector<int>\<close> indexed by player and information set; \<open>S_Lengths\<close> is what its
  \<^verbatim>\<open>Lengths()\<close> returns, the number of entries of each player.  The class is declared in
  eliap.h; the counters are integers of the model.
\<close>

record EFLiapBySubgame =
  S_nevals :: int
  S_subgame_number :: nat
  S_infoset_subgames :: "nat \<Rightarrow> nat \<Rightarrow> nat"
  S_Lengths :: "nat \<Rightarrow> nat"
  S_params :: EFLiapParams
  S_start :: BehavProfile

text \<open>
  The scan of the constructor:
  \<^verbatim>\<open>for (index = 1; index <= subroots.Length() &&
       member->GetSubgameRoot() != subroots[index]; index++);\<close>
  with \<open>subroot\<close> for \<^verbatim>\<open>member->GetSubgameRoot()\<close>.  The list is indexed from 1.
\<close>

function scan_subroots :: "Node \<Rightarrow> Node list \<Rightarrow> nat \<Rightarrow> nat" where
  "scan_subroots subroot subroots index =
     (if index \<le> length subroots \<and> subroot \<noteq> subroots ! (index - 1)
      then scan_subroots subroot subroots (index + 1) else index)"
  by pat_completeness auto
termination
  by (relation "measure (\<lambda>(subroot, subroots, index). Suc (length subroots) - index)") auto

declare scan_subroots.simps [simp del]

text \<open>
  The loops of the constructor over the information sets of a player and over the
  players.  A failing \<^verbatim>\<open>assert\<close> ends the program: it is the error
  \<open>AssertionFailure\<close> (the build that defines \<^verbatim>\<open>NDEBUG\<close> is not modelled).
\<close>

fun ctor_infosets ::
  "Efg \<Rightarrow> Node list \<Rightarrow> nat \<Rightarrow> nat list \<Rightarrow> (nat \<Rightarrow> nat \<Rightarrow> nat) \<Rightarrow> error + (nat \<Rightarrow> nat \<Rightarrow> nat)" where
  "ctor_infosets E subroots pl [] m = Inr m"
| "ctor_infosets E subroots pl (iset # isets) m =
     (let index = scan_subroots (FirstMemberSubgameRoot E pl iset) subroots 1
      in if \<not> index \<le> length subroots then Inl AssertionFailure
         else ctor_infosets E subroots pl isets (m(pl := (m pl)(iset := index))))"

fun ctor_players ::
  "Efg \<Rightarrow> Node list \<Rightarrow> nat list \<Rightarrow> (nat \<Rightarrow> nat \<Rightarrow> nat) \<Rightarrow> error + (nat \<Rightarrow> nat \<Rightarrow> nat)" where
  "ctor_players E subroots [] m = Inr m"
| "ctor_players E subroots (pl # pls) m =
     (case ctor_infosets E subroots pl [1..<Suc (NumInfosets E pl)] m of
        Inl e \<Rightarrow> Inl e
      | Inr m' \<Rightarrow> ctor_players E subroots pls m')"

text \<open>
  The constructor.  \<open>fresh\<close> is what the new \<^verbatim>\<open>infoset_subgames\<close> holds before the loops
  fill it.
\<close>

definition EFLiapBySubgame_new ::
  "Efg \<Rightarrow> EFLiapParams \<Rightarrow> BehavProfile \<Rightarrow> (nat \<Rightarrow> nat \<Rightarrow> nat) \<Rightarrow> error + EFLiapBySubgame" where
  "EFLiapBySubgame_new E p s fresh =
     (case ctor_players E (MarkedSubgameRoots E) [1..<Suc (NumPlayers E)] fresh of
        Inl e \<Rightarrow> Inl e
      | Inr m \<Rightarrow>
          Inr \<lparr>S_nevals = 0, S_subgame_number = 0, S_infoset_subgames = m,
               S_Lengths = NumInfosets E, S_params = p, S_start = s\<rparr>)"

text \<open>
  \<open>idx\<close> is the position, counted from 1, of the first entry of the list that
  equals \<open>r\<close>.
\<close>

definition first_index :: "Node list \<Rightarrow> Node \<Rightarrow> nat \<Rightarrow> bool" where
  "first_index subroots r idx =
     (1 \<le> idx \<and> idx \<le> length subroots \<and> subroots ! (idx - 1) = r \<and>
      (\<forall>k. 1 \<le> k \<and> k < idx \<longrightarrow> subroots ! (k - 1) \<noteq> r))"





section \<open>The penalty terms in the words of the specification\<close>

text \<open>
  The three penalty terms of one information set, the way the specification words
  them: \<open>10000 x\<^sup>2\<close> for every action whose probability \<open>x\<close> is negative, the square
  of \<open>max(0, payoff - average)\<close> for every action, where the average is the sum over the
  actions of probability times conditional payoff, and \<open>100\<close> times the square of the
  sum of the probabilities minus \<open>1\<close>.  \<open>n\<close> is the number of actions.
\<close>

definition infoset_penalty :: "gDPVector \<Rightarrow> gDPVector \<Rightarrow> nat \<Rightarrow> nat \<Rightarrow> nat \<Rightarrow> real" where
  "infoset_penalty p cpay n i j =
     (\<Sum>k = 1..n. if p i j k < 0 then 10000 * (p i j k)\<^sup>2 else 0) +
     (\<Sum>k = 1..n. (max 0 (cpay i j k - (\<Sum>l = 1..n. p i j l * cpay i j l)))\<^sup>2) +
     100 * ((\<Sum>k = 1..n. p i j k) - 1)\<^sup>2"

section \<open>Example inputs\<close>

text \<open>
  A game with one player and two information sets, of three and of two actions; the
  conditional payoff of the first action of an information set is \<open>3\<close>, that of the
  others \<open>1\<close>.  The world of the example is a counter of the calls of \<^verbatim>\<open>Uniform\<close> and
  \<^verbatim>\<open>Powell\<close> together with the status flag: \<^verbatim>\<open>Uniform\<close> draws \<open>7/8\<close> and \<open>1/4\<close> in
  turn, and \<^verbatim>\<open>Powell\<close> evaluates the function at its starting point and at the pure
  profile it returns, and reports success from the third call counted on.
\<close>

definition ex_Efg :: Efg where
  "ex_Efg = \<lparr>NumPlayers = 1, NumInfosets = (\<lambda>_. 2),
     NumActions = (\<lambda>pl iset. if iset = 1 then 3 else 2),
     FirstMemberSubgameRoot = (\<lambda>pl iset. if iset = 1 then 20 else 10),
     MarkedSubgameRoots = [10, 20, 10]\<rparr>"

definition ex_profile :: BehavProfile where
  "ex_profile = \<lparr>BelongsTo = ex_Efg, SupportNumActions = NumActions ex_Efg,
     probs = (\<lambda>_ _ _. 1 / 2)\<rparr>"

definition ex_pure :: gDPVector where
  "ex_pure = (\<lambda>_ _ k. if k = 1 then 1 else 0)"

definition ex_ext :: "(nat \<times> bool) externals" where
  "ex_ext = \<lparr>CondPayoff = (\<lambda>_ _ _ k. if k = 1 then 3 else 1),
     Uniform = (\<lambda>(n, c). (if even n then 7 / 8 else 1 / 4, (n + 1, c))),
     Project = (\<lambda>foo dims. foo),
     Powell = (\<lambda>(n, c) p xi F params.
        (\<lparr>found = (2 \<le> n), p_out = ex_pure, xi_out = xi, fret = 0, iter = 1,
          evals = [probs p, ex_pure]\<rparr>, (n + 1, c))),
     status_Get = snd,
     status_Reset = (\<lambda>(n, c). (n, False)),
     BehavProfile_new = (\<lambda>E. \<lparr>BelongsTo = E, SupportNumActions = NumActions E,
        probs = (\<lambda>_ _ _. 1 / 2)\<rparr>)\<rparr>"

text \<open>
  A second world for the same game: \<^verbatim>\<open>Uniform\<close> always draws \<open>0\<close>, and \<^verbatim>\<open>Powell\<close>
  evaluates the function once and always reports success.  \<open>ex_random2\<close> is what
  \<^verbatim>\<open>PickRandomProfile\<close> makes of a profile of the example game in this world.
\<close>

definition ex_ext2 :: "(nat \<times> bool) externals" where
  "ex_ext2 = \<lparr>CondPayoff = (\<lambda>_ _ _ k. if k = 1 then 3 else 1),
     Uniform = (\<lambda>(n, c). (0, (n + 1, c))),
     Project = (\<lambda>foo dims. foo),
     Powell = (\<lambda>(n, c) p xi F params.
        (\<lparr>found = True, p_out = ex_pure, xi_out = xi, fret = 0, iter = 1,
          evals = [probs p]\<rparr>, (n + 1, c))),
     status_Get = snd,
     status_Reset = (\<lambda>(n, c). (n, False)),
     BehavProfile_new = (\<lambda>E. \<lparr>BelongsTo = E, SupportNumActions = NumActions E,
        probs = (\<lambda>_ _ _. 1 / 2)\<rparr>)\<rparr>"

definition ex_random2 :: "gDPVector \<Rightarrow> gDPVector" where
  "ex_random2 v =
     assign3 (assign3 (assign3 (assign3 (assign3 v 1 1 1 0) 1 1 2 0) 1 1 3 1) 1 2 1 0) 1 2 2 1"

text \<open>
  What \<^verbatim>\<open>PickRandomProfile\<close> makes of a profile of the example game when the counter
  of the world stands at \<open>1\<close>, and the solution that the second call of \<^verbatim>\<open>Powell\<close>
  yields.
\<close>

definition ex_random :: "gDPVector \<Rightarrow> gDPVector" where
  "ex_random v =
     assign3 (assign3 (assign3 (assign3 (assign3 v 1 1 1 (1 / 4)) 1 1 2 (1 / 4)) 1 1 3 (1 / 2))
       1 2 1 (7 / 8)) 1 2 2 (1 / 8)"

definition ex_solution :: BehavSolution where
  "ex_solution = \<lparr>sol_profile = ex_profile\<lparr>probs := ex_pure\<rparr>, sol_creator = EfgAlg_LIAP,
     sol_liap = 0\<rparr>"





section \<open>Properties of the Liapunov function\<close>

lemma ex_intervals:
  "{Suc 0..Suc 0} = {Suc 0}" "{Suc 0..2} = {Suc 0, 2}" "{Suc 0..3} = {Suc 0, 2, 3}"
  by auto

lemma foldl_prob_step:
  "foldl (Value_prob_step p cpay i j) (a, s, r) ks =
     (a + (\<Sum>k\<leftarrow>ks. p i j k * cpay i j k), s + (\<Sum>k\<leftarrow>ks. p i j k),
      r + (\<Sum>k\<leftarrow>ks. if p i j k < 0 then 10000 * (p i j k)\<^sup>2 else 0))"
  by (induction ks arbitrary: a s r)
     (auto simp: Value_prob_step_def BIG1_def Let_def power2_eq_square)

lemma foldl_payoff_step:
  "foldl (Value_payoff_step cpay i j avg) r ks =
     r + (\<Sum>k\<leftarrow>ks. (max 0 (cpay i j k - avg))\<^sup>2)"
  by (induction ks arbitrary: r)
     (auto simp: Value_payoff_step_def Let_def power2_eq_square max_def)

lemma sum_list_upt1: "(\<Sum>k\<leftarrow>[Suc 0..<Suc n]. f k) = (\<Sum>k = Suc 0..n. (f k :: real))"
proof -
  have "(\<Sum>k\<leftarrow>[Suc 0..<Suc n]. f k) = sum f (set [Suc 0..<Suc n])"
    by (rule interv_sum_list_conv_sum_set_nat)
  also have "set [Suc 0..<Suc n] = {Suc 0..n}"
    by auto
  finally show ?thesis .
qed

lemma Value_infoset_eq:
  "Value_infoset E p cpay i r j = r + infoset_penalty p cpay (NumActions E i j) i j"
  by (simp add: Value_infoset_def Let_def foldl_prob_step foldl_payoff_step sum_list_upt1
      infoset_penalty_def BIG2_def power2_eq_square del: upt_Suc)

lemma foldl_infoset:
  "foldl (Value_infoset E p cpay i) r js =
     r + (\<Sum>j\<leftarrow>js. infoset_penalty p cpay (NumActions E i j) i j)"
  by (induction js arbitrary: r) (auto simp: Value_infoset_eq)

lemma foldl_player:
  "foldl (Value_player E p cpay) r is =
     r + (\<Sum>i\<leftarrow>is. \<Sum>j = 1..NumInfosets E i. infoset_penalty p cpay (NumActions E i j) i j)"
  by (induction "is" arbitrary: r) (auto simp: Value_player_def foldl_infoset sum_list_upt1 simp del: upt_Suc)

lemma Value_sum:
  "fst (Value ext F v) =
     (\<Sum>i = 1..NumPlayers (F_efg F). \<Sum>j = 1..NumInfosets (F_efg F) i.
        infoset_penalty v (CondPayoff ext ((F_p F)\<lparr>probs := v\<rparr>)) (NumActions (F_efg F) i j) i j)"
  by (simp add: Value_def Let_def foldl_player sum_list_upt1 del: upt_Suc)


text \<open>
  Claim C1.  For every input vector \<open>v\<close>, \<^verbatim>\<open>Value\<close> copies \<open>v\<close> into the wrapped profile,
  has the conditional payoffs of that profile computed, and returns the sum, over every
  player and every information set of the player, of three penalty terms: for each
  action with probability \<open>x\<close>, \<open>10000 x\<^sup>2\<close> when \<open>x < 0\<close> and \<open>0\<close> otherwise; for each
  action, the square of \<open>max(0, conditional payoff - average)\<close>, the average being the
  sum over the actions of probability times conditional payoff; and \<open>100\<close> times the
  square of the sum of the probabilities minus \<open>1\<close>.
\<close>

theorem Value_penalty_sum:
  "fst (Value ext F v) =
     (let E = F_efg F; cpay = CondPayoff ext ((F_p F)\<lparr>probs := v\<rparr>) in
      \<Sum>i = 1..NumPlayers E. \<Sum>j = 1..NumInfosets E i.
        (\<Sum>k = 1..NumActions E i j. if v i j k < 0 then 10000 * (v i j k)\<^sup>2 else 0) +
        (\<Sum>k = 1..NumActions E i j.
           (max 0 (cpay i j k - (\<Sum>l = 1..NumActions E i j. v i j l * cpay i j l)))\<^sup>2) +
        100 * ((\<Sum>k = 1..NumActions E i j. v i j k) - 1)\<^sup>2) \<and>
   F_p (snd (Value ext F v)) = (F_p F)\<lparr>probs := v\<rparr> \<and>
   F_cpay (snd (Value ext F v)) = CondPayoff ext ((F_p F)\<lparr>probs := v\<rparr>)"
  using Value_sum [of ext F v]
  by (simp add: infoset_penalty_def Let_def Value_def)

theorem Value_penalty_sum_witness:
  "fst (Value ex_ext (EFLiapFunc_new ex_Efg ex_profile (\<lambda>_ _ _. 0)) (\<lambda>_ _ _. 1 / 2)) = 105 / 4"
  using Value_penalty_sum [of ex_ext "EFLiapFunc_new ex_Efg ex_profile (\<lambda>_ _ _. 0)" "\<lambda>_ _ _. 1 / 2"]
  by (simp add: ex_ext_def EFLiapFunc_new_def ex_Efg_def ex_intervals Let_def power2_eq_square)

section \<open>Properties of the search driver\<close>

lemma Liap_run_unfold_stop:
  "\<not> Liap_cond ext params s \<Longrightarrow> Liap_run ext params s = Some [s]"
  by (subst Liap_run.simps) simp

lemma Liap_run_unfold_step:
  "Liap_cond ext params s \<Longrightarrow> Liap_iteration ext params s = Some s' \<Longrightarrow>
   Liap_run ext params s = map_option ((#) s) (Liap_run ext params s')"
  by (subst Liap_run.simps) simp

lemma Liap_run_unfold_None:
  "Liap_cond ext params s \<Longrightarrow> Liap_iteration ext params s = None \<Longrightarrow>
   Liap_run ext params s = None"
  by (subst Liap_run.simps) simp

lemma Liap_run_cases:
  assumes "Liap_run ext params s = Some run"
  obtains (stop) "\<not> Liap_cond ext params s" "run = [s]"
  | (step) s' run' where "Liap_cond ext params s" "Liap_iteration ext params s = Some s'"
      "Liap_run ext params s' = Some run'" "run = s # run'"
proof (cases "Liap_cond ext params s")
  case False
  with assms stop show ?thesis by (simp add: Liap_run_unfold_stop)
next
  case True
  show ?thesis
  proof (cases "Liap_iteration ext params s")
    case None
    with True assms show ?thesis by (simp add: Liap_run_unfold_None)
  next
    case (Some s')
    with True assms step show ?thesis
      by (auto simp: Liap_run_unfold_step)
  qed
qed

lemma Liap_run_hd: "Liap_run ext params s = Some run \<Longrightarrow> run \<noteq> [] \<and> hd run = s"
  by (erule Liap_run_cases) auto

lemma Liap_loop_run: "Liap_loop ext params s = map_option last (Liap_run ext params s)"
proof (induction ext params s rule: Liap_loop.induct)
  case (1 ext params s)
  show ?case
  proof (cases "Liap_cond ext params s")
    case False
    then show ?thesis
      by (subst Liap_loop.simps) (simp add: Liap_run_unfold_stop)
  next
    case True
    show ?thesis
    proof (cases "Liap_iteration ext params s")
      case None
      with True show ?thesis
        by (subst Liap_loop.simps) (simp add: Liap_run_unfold_None)
    next
      case (Some s')
      have "Liap_loop ext params s = Liap_loop ext params s'"
        using True Some by (subst Liap_loop.simps) simp
      also have "\<dots> = map_option last (Liap_run ext params s')"
        using "1.IH" True Some by simp
      also have "\<dots> = map_option last (Liap_run ext params s)"
      proof (cases "Liap_run ext params s'")
        case None
        then show ?thesis using True Some by (simp add: Liap_run_unfold_step)
      next
        case (Some run')
        then have "run' \<noteq> []" using Liap_run_hd by blast
        then show ?thesis
          using True \<open>Liap_iteration ext params s = Some s'\<close> Some
          by (simp add: Liap_run_unfold_step)
      qed
      finally show ?thesis .
    qed
  qed
qed

lemma Liap_run_steps:
  "Liap_run ext params s = Some run \<Longrightarrow> Suc k < length run \<Longrightarrow>
   Liap_cond ext params (run ! k) \<and> Liap_iteration ext params (run ! k) = Some (run ! Suc k)"
proof (induction ext params s arbitrary: run k rule: Liap_run.induct)
  case (1 ext params s)
  from "1.prems"(1) show ?case
  proof (cases rule: Liap_run_cases)
    case stop
    with "1.prems"(2) show ?thesis by simp
  next
    case (step s' run')
    show ?thesis
    proof (cases k)
      case 0
      with step show ?thesis
        using Liap_run_hd [OF step(3)] by (cases run') auto
    next
      case (Suc k')
      with "1.prems"(2) step have "Suc k' < length run'" by simp
      from "1.IH" [OF step(1) step(2) step(3) this] show ?thesis
        using Suc step by simp
    qed
  qed
qed

lemma Liap_run_last:
  "Liap_run ext params s = Some run \<Longrightarrow> \<not> Liap_cond ext params (last run)"
proof (induction ext params s arbitrary: run rule: Liap_run.induct)
  case (1 ext params s)
  from "1.prems"(1) show ?case
  proof (cases rule: Liap_run_cases)
    case stop
    then show ?thesis by simp
  next
    case (step s' run')
    from "1.IH" [OF step(1) step(2) step(3)] show ?thesis
      using step Liap_run_hd [OF step(3)] by simp
  qed
qed

lemma Liap_run_i:
  "Liap_run ext params s = Some run \<Longrightarrow> k < length run \<Longrightarrow> L_i (run ! k) = L_i s + int k"
proof (induction k)
  case 0
  then show ?case using Liap_run_hd [of ext params s run] by (cases run) auto
next
  case (Suc k)
  then have "L_i (run ! k) = L_i s + int k" by simp
  moreover have "Liap_iteration ext params (run ! k) = Some (run ! Suc k)"
    using Liap_run_steps [OF Suc.prems(1), of k] Suc.prems(2) by simp
  ultimately show ?case
    using Liap_iteration_i [of ext params "run ! k" "run ! Suc k"] by simp
qed

lemma Liap_run_length:
  assumes "Liap_run ext params s = Some run" "L_i s = 1"
  shows "int (length run) - 1 \<le> max 0 (nTries params)"
proof (cases "length run \<le> 1")
  case True
  then show ?thesis by simp
next
  case False
  then obtain k where k: "length run = Suc (Suc k)"
    using nat_le_iff_add [of 2 "length run"] by auto
  then have "Liap_cond ext params (run ! k)"
    using Liap_run_steps [OF assms(1), of k] by simp
  moreover have "L_i (run ! k) = 1 + int k"
    using Liap_run_i [OF assms(1), of k] k assms(2) by simp
  ultimately have "1 + int k \<le> nTries params"
    by (simp add: Liap_cond_def)
  then show ?thesis using k by simp
qed

lemma nevals_foldl_Value:
  "F_nevals (foldl (\<lambda>F v. snd (Value ext F v)) F vs) = F_nevals F + int (length vs)"
  by (induction vs arbitrary: F) (auto simp: Value_def Let_def)

lemma Liap_iteration_facts:
  assumes "Liap_iteration ext params s = Some s'"
  obtains p r w where "Liap_attempt ext params s = Some (p, r, w)"
    "L_found s' = found r"
    "L_solutions s' = (if found r then AddSolution (L_solutions s) (p\<lparr>probs := p_out r\<rparr>) (fret r)
                       else L_solutions s)"
    "L_world s' = (if status_Get ext w then status_Reset ext w else w)"
    "L_F s' = foldl (\<lambda>F v. snd (Value ext F v)) (L_F s) (evals r)"
proof (cases "Liap_attempt ext params s")
  case None
  with assms show ?thesis by (simp add: Liap_iteration_def)
next
  case (Some a)
  obtain p r w where a: "a = (p, r, w)" by (cases a) auto
  have "s' = \<lparr>L_i = L_i s + 1, L_p = p\<lparr>probs := p_out r\<rparr>, L_xi = xi_out r,
            L_F = foldl (\<lambda>F v. snd (Value ext F v)) (L_F s) (evals r),
            L_value = fret r, L_iter = iter r, L_found = found r,
            L_solutions = (if found r then AddSolution (L_solutions s) (p\<lparr>probs := p_out r\<rparr>) (fret r)
                           else L_solutions s),
            L_world = (if status_Get ext w then status_Reset ext w else w)\<rparr>"
    using assms Some a by (simp add: Liap_iteration_def Let_def)
  then show ?thesis
    using that [of p r w] Some a by simp
qed

lemma Liap_Some_run:
  assumes "Liap ext E params start solutions w = Some (b, sols, nev, nit, w')"
  obtains run where "Liap_run ext params (Liap_init E start solutions w) = Some run"
    "b = (L_solutions (last run) \<noteq> [])" "sols = L_solutions (last run)"
    "nev = F_nevals (L_F (last run))" "nit = 0" "w' = L_world (last run)"
proof -
  have eq: "Liap ext E params start solutions w =
      (case Liap_run ext params (Liap_init E start solutions w) of
         None \<Rightarrow> None
       | Some run \<Rightarrow> Some (length (L_solutions (last run)) > 0, L_solutions (last run),
           NumEvals (L_F (last run)), 0, L_world (last run)))"
    unfolding Liap_def Liap_loop_run
    by (cases "Liap_run ext params (Liap_init E start solutions w)") simp_all
  obtain run where run: "Liap_run ext params (Liap_init E start solutions w) = Some run"
    using assms unfolding eq
    by (cases "Liap_run ext params (Liap_init E start solutions w)") simp_all
  note t = assms [unfolded eq run option.case]
  have 1: "b = (L_solutions (last run) \<noteq> [])" using t by auto
  have 2: "sols = L_solutions (last run)" using t by simp
  have 3: "nev = F_nevals (L_F (last run))" using t by (simp add: NumEvals_def)
  have 4: "nit = 0" using t by simp
  have 5: "w' = L_world (last run)" using t by simp
  from run 1 2 3 4 5 show thesis by (rule that)
qed

lemma Liap_run_solutions_step:
  assumes "Liap_run ext params s = Some run" "Suc k < length run"
  shows "L_solutions (run ! Suc k) =
           (if L_found (run ! Suc k)
            then AddSolution (L_solutions (run ! k)) (L_p (run ! Suc k)) (L_value (run ! Suc k))
            else L_solutions (run ! k))"
proof -
  have "Liap_iteration ext params (run ! k) = Some (run ! Suc k)"
    using Liap_run_steps [OF assms] by simp
  then obtain a where a: "Liap_attempt ext params (run ! k) = Some a"
    by (auto simp: Liap_iteration_def split: option.splits)
  obtain p r w where "a = (p, r, w)" by (cases a) auto
  with a \<open>Liap_iteration ext params (run ! k) = Some (run ! Suc k)\<close>
  have "run ! Suc k = \<lparr>L_i = L_i (run ! k) + 1, L_p = p\<lparr>probs := p_out r\<rparr>, L_xi = xi_out r,
            L_F = foldl (\<lambda>F v. snd (Value ext F v)) (L_F (run ! k)) (evals r),
            L_value = fret r, L_iter = iter r, L_found = found r,
            L_solutions = (if found r then AddSolution (L_solutions (run ! k)) (p\<lparr>probs := p_out r\<rparr>) (fret r)
                           else L_solutions (run ! k)),
            L_world = (if status_Get ext w then status_Reset ext w else w)\<rparr>"
    by (simp add: Liap_iteration_def Let_def)
  then have "L_solutions (run ! Suc k) =
      (if found r then AddSolution (L_solutions (run ! k)) (p\<lparr>probs := p_out r\<rparr>) (fret r)
       else L_solutions (run ! k))"
    "L_found (run ! Suc k) = found r" "L_p (run ! Suc k) = p\<lparr>probs := p_out r\<rparr>"
    "L_value (run ! Suc k) = fret r"
    by simp_all
  then show ?thesis by simp
qed

lemma Liap_run_solutions_length:
  assumes "Liap_run ext params s = Some run" "Suc k < length run"
  shows "length (L_solutions (run ! Suc k)) =
           length (L_solutions (run ! k)) + (if L_found (run ! Suc k) then 1 else 0)"
  using Liap_run_solutions_step [OF assms] by (simp add: AddSolution_def)

text \<open>With \<open>stopAfter = 1\<close> and no solution at the start, a successful attempt is the last.\<close>

lemma Liap_run_first_success:
  assumes run: "Liap_run ext params s = Some run"
    and stop: "stopAfter params = 1" and "Suc k < length run" "L_found (run ! Suc k)"
  shows "Suc (Suc k) = length run"
proof (rule ccontr)
  assume "Suc (Suc k) \<noteq> length run"
  with assms(3) have "Suc (Suc k) < length run" by simp
  then have "Liap_cond ext params (run ! Suc k)"
    using Liap_run_steps [OF run, of "Suc k"] by simp
  then have "length (L_solutions (run ! Suc k)) = 0"
    using stop by (simp add: Liap_cond_def)
  moreover have "length (L_solutions (run ! Suc k)) = length (L_solutions (run ! k)) + 1"
    using Liap_run_solutions_length [OF run assms(3)] assms(4) by simp
  ultimately show False by simp
qed

lemma Liap_run_no_success:
  assumes run: "Liap_run ext params s = Some run"
    and none: "\<forall>j. Suc j < length run \<longrightarrow> \<not> L_found (run ! Suc j)"
  shows "k < length run \<Longrightarrow> L_solutions (run ! k) = L_solutions s"
proof (induction k)
  case 0
  then show ?case using Liap_run_hd [OF run] by (cases run) auto
next
  case (Suc k)
  then show ?case
    using Liap_run_solutions_step [OF run, of k] none by simp
qed

lemma Liap_run_success_nonempty:
  assumes run: "Liap_run ext params s = Some run"
    and "Suc j < length run" "L_found (run ! Suc j)"
  shows "Suc j \<le> k \<Longrightarrow> k < length run \<Longrightarrow> L_solutions (run ! k) \<noteq> []"
proof (induction k)
  case 0
  then show ?case by simp
next
  case (Suc k)
  show ?case
  proof (cases "j = k")
    case True
    then show ?thesis
      using Liap_run_solutions_step [OF run assms(2)] assms(3) by (simp add: AddSolution_def)
  next
    case False
    then have "L_solutions (run ! k) \<noteq> []" using Suc by simp
    then show ?thesis
      using Liap_run_solutions_step [OF run Suc.prems(2)] by (simp add: AddSolution_def)
  qed
qed

lemma Liap_run_nevals_step:
  assumes "Liap_run ext params s = Some run" "Suc k < length run"
  shows "\<exists>p r w2. Liap_attempt ext params (run ! k) = Some (p, r, w2) \<and>
           F_nevals (L_F (run ! Suc k)) = F_nevals (L_F (run ! k)) + int (length (evals r))"
proof -
  have "Liap_iteration ext params (run ! k) = Some (run ! Suc k)"
    using Liap_run_steps [OF assms] by simp
  then obtain p r w2 where "Liap_attempt ext params (run ! k) = Some (p, r, w2)"
    "L_F (run ! Suc k) = foldl (\<lambda>F v. snd (Value ext F v)) (L_F (run ! k)) (evals r)"
    by (rule Liap_iteration_facts)
  then have "Liap_attempt ext params (run ! k) = Some (p, r, w2) \<and>
           F_nevals (L_F (run ! Suc k)) = F_nevals (L_F (run ! k)) + int (length (evals r))"
    by (simp add: nevals_foldl_Value)
  then show ?thesis by blast
qed

lemma Liap_run_nevals_mono:
  assumes run: "Liap_run ext params s = Some run"
  shows "k < length run \<Longrightarrow> j \<le> k \<Longrightarrow> F_nevals (L_F (run ! j)) \<le> F_nevals (L_F (run ! k))"
proof (induction k)
  case 0
  then show ?case by simp
next
  case (Suc k)
  show ?case
  proof (cases "j = Suc k")
    case True
    then show ?thesis by simp
  next
    case False
    then have "F_nevals (L_F (run ! j)) \<le> F_nevals (L_F (run ! k))"
      using Suc by simp
    moreover have "F_nevals (L_F (run ! k)) \<le> F_nevals (L_F (run ! Suc k))"
      using Liap_run_nevals_step [OF run Suc.prems(1)] by auto
    ultimately show ?thesis by simp
  qed
qed

lemma Liap_run_world_step:
  assumes "Liap_run ext params s = Some run" "Suc k < length run"
  shows "\<not> status_Get ext (L_world (run ! k)) \<and>
         (\<exists>p r w2. Liap_attempt ext params (run ! k) = Some (p, r, w2) \<and>
            L_world (run ! Suc k) = (if status_Get ext w2 then status_Reset ext w2 else w2))"
proof -
  have c: "Liap_cond ext params (run ! k)"
    and it: "Liap_iteration ext params (run ! k) = Some (run ! Suc k)"
    using Liap_run_steps [OF assms] by simp_all
  from it obtain p r w2 where "Liap_attempt ext params (run ! k) = Some (p, r, w2)"
    "L_world (run ! Suc k) = (if status_Get ext w2 then status_Reset ext w2 else w2)"
    by (rule Liap_iteration_facts)
  then have "\<exists>p r w2. Liap_attempt ext params (run ! k) = Some (p, r, w2) \<and>
            L_world (run ! Suc k) = (if status_Get ext w2 then status_Reset ext w2 else w2)"
    by blast
  with c show ?thesis
    unfolding Liap_cond_def by blast
qed

text \<open>
  In the statements below \<open>run\<close> is the run of the loop of \<^verbatim>\<open>Liap\<close>: the states in
  which the loop condition was tested.  Each state but the last is followed by one
  attempt (one call of \<^verbatim>\<open>Powell\<close>), so the number of attempts is \<open>length run - 1\<close>;
  \<open>run ! k\<close> is the state before attempt \<open>k + 1\<close> and \<open>run ! Suc k\<close> the state after it,
  whose \<open>L_found\<close> tells whether that attempt succeeded.  \<^verbatim>\<open>Liap\<close> computes its outputs
  from the last state.
\<close>

lemma Liap_run_F_step:
  assumes "Liap_run ext params s = Some run" "Suc k < length run"
  shows "\<exists>p r w2. Liap_attempt ext params (run ! k) = Some (p, r, w2) \<and>
           L_F (run ! Suc k) = foldl (\<lambda>F v. snd (Value ext F v)) (L_F (run ! k)) (evals r) \<and>
           F_nevals (L_F (run ! Suc k)) = F_nevals (L_F (run ! k)) + int (length (evals r))"
proof -
  have "Liap_iteration ext params (run ! k) = Some (run ! Suc k)"
    using Liap_run_steps [OF assms] by simp
  then obtain p r w2 where "Liap_attempt ext params (run ! k) = Some (p, r, w2)"
    "L_F (run ! Suc k) = foldl (\<lambda>F v. snd (Value ext F v)) (L_F (run ! k)) (evals r)"
    by (rule Liap_iteration_facts)
  then have "Liap_attempt ext params (run ! k) = Some (p, r, w2) \<and>
           L_F (run ! Suc k) = foldl (\<lambda>F v. snd (Value ext F v)) (L_F (run ! k)) (evals r) \<and>
           F_nevals (L_F (run ! Suc k)) = F_nevals (L_F (run ! k)) + int (length (evals r))"
    by (simp add: nevals_foldl_Value)
  then show ?thesis by blast
qed

lemma Liap_run_stopAfter_one:
  assumes run: "Liap_run ext params s = Some run"
    and stop: "stopAfter params = 1" and empty: "L_solutions s = []"
  shows "length (L_solutions (last run)) =
           (if \<exists>k. Suc k < length run \<and> L_found (run ! Suc k) then 1 else 0)"
proof (cases "\<exists>k. Suc k < length run \<and> L_found (run ! Suc k)")
  case True
  then obtain k where k: "Suc k < length run" "L_found (run ! Suc k)" by blast
  then have len: "Suc (Suc k) = length run"
    using Liap_run_first_success [OF run stop] by simp
  then have last: "last run = run ! Suc k"
    by (metis diff_Suc_1 last_conv_nth length_0_conv nat.distinct(1))
  have "Liap_cond ext params (run ! k)"
    using Liap_run_steps [OF run k(1)] by simp
  then have "L_solutions (run ! k) = []"
    using stop by (simp add: Liap_cond_def)
  then have "length (L_solutions (run ! Suc k)) = 1"
    using Liap_run_solutions_length [OF run k(1)] k(2) by simp
  with True last show ?thesis by simp
next
  case False
  have "run \<noteq> []" using Liap_run_hd [OF run] by simp
  then have "last run = run ! (length run - 1)" "length run - 1 < length run"
    by (simp_all add: last_conv_nth)
  moreover have "\<forall>j. Suc j < length run \<longrightarrow> \<not> L_found (run ! Suc j)"
    using False by blast
  ultimately have "L_solutions (last run) = L_solutions s"
    using Liap_run_no_success [OF run] by simp
  with False empty show ?thesis by simp
qed

lemma Liap_run_exit:
  assumes run: "Liap_run ext params s = Some run" and i: "L_i s = 1"
  shows "status_Get ext (L_world (last run)) \<or>
         int (length run) - 1 = max 0 (nTries params) \<or>
         (stopAfter params \<noteq> 0 \<and> stopAfter params \<le> int (length (L_solutions (last run))))"
proof -
  have ne: "run \<noteq> []" using Liap_run_hd [OF run] by simp
  then have last: "last run = run ! (length run - 1)" and lt: "length run - 1 < length run"
    by (simp_all add: last_conv_nth)
  have len: "1 \<le> int (length run)" using ne by (cases run) simp_all
  have "L_i (run ! (length run - 1)) = 1 + int (length run - 1)"
    using Liap_run_i [OF run lt] i by simp
  then have li: "L_i (last run) = int (length run)"
    using last ne by (cases run) simp_all
  have nc: "\<not> Liap_cond ext params (last run)"
    by (rule Liap_run_last [OF run])
  have ub: "int (length run) - 1 \<le> max 0 (nTries params)"
    by (rule Liap_run_length [OF run i])
  show ?thesis
  proof (cases "status_Get ext (L_world (last run)) \<or>
      (stopAfter params \<noteq> 0 \<and> stopAfter params \<le> int (length (L_solutions (last run))))")
    case True
    then show ?thesis by blast
  next
    case False
    with nc have "nTries params < L_i (last run)"
      unfolding Liap_cond_def by force
    with li ub len have "int (length run) - 1 = max 0 (nTries params)"
      by (simp add: max_def split: if_splits)
    then show ?thesis by blast
  qed
qed

text \<open>
  Claim C4.  The loop of \<^verbatim>\<open>Liap\<close> makes at most \<^verbatim>\<open>nTries\<close> attempts, and it makes an
  attempt only while \<^verbatim>\<open>stopAfter\<close> is \<open>0\<close> or the list holds fewer than \<^verbatim>\<open>stopAfter\<close>
  solutions; when the list already holds that many at the start, no attempt is made.
  The loop ends before it has made \<^verbatim>\<open>nTries\<close> attempts only when the status flag is
  set or when \<^verbatim>\<open>stopAfter\<close> is not \<open>0\<close> and the list holds at least \<^verbatim>\<open>stopAfter\<close>
  solutions: with \<^verbatim>\<open>stopAfter = 0\<close> the number of solutions never ends it, and unless the
  flag is set all \<^verbatim>\<open>nTries\<close> attempts are made.  With \<^verbatim>\<open>stopAfter = 1\<close> (and any
  \<^verbatim>\<open>nTries\<close>, \<open>10\<close> included) and an empty list at the start, a successful attempt is
  the last attempt, and the list returned holds exactly one solution if some attempt
  succeeded and none otherwise.
\<close>

theorem Liap_restart_loop:
  assumes "Liap ext E params start solutions w = Some (b, sols, nev, nit, w')"
  shows "\<exists>run. Liap_run ext params (Liap_init E start solutions w) = Some run \<and>
           sols = L_solutions (last run) \<and> w' = L_world (last run) \<and>
           int (length run) - 1 \<le> max 0 (nTries params) \<and>
           (\<forall>k. Suc k < length run \<longrightarrow>
              stopAfter params = 0 \<or> int (length (L_solutions (run ! k))) < stopAfter params) \<and>
           (stopAfter params \<noteq> 0 \<and> stopAfter params \<le> int (length solutions) \<longrightarrow>
              run = [Liap_init E start solutions w]) \<and>
           (status_Get ext w' \<or> int (length run) - 1 = max 0 (nTries params) \<or>
              (stopAfter params \<noteq> 0 \<and> stopAfter params \<le> int (length sols))) \<and>
           (stopAfter params = 0 \<and> \<not> status_Get ext w' \<longrightarrow>
              int (length run) - 1 = max 0 (nTries params)) \<and>
           (stopAfter params = 1 \<and> solutions = [] \<longrightarrow>
              (\<forall>k. Suc k < length run \<and> L_found (run ! Suc k) \<longrightarrow> Suc (Suc k) = length run) \<and>
              length sols = (if \<exists>k. Suc k < length run \<and> L_found (run ! Suc k) then 1 else 0))"
proof -
  let ?s = "Liap_init E start solutions w"
  from assms obtain run where run: "Liap_run ext params ?s = Some run"
    and sols: "sols = L_solutions (last run)" and w': "w' = L_world (last run)"
    by (rule Liap_Some_run)
  have 1: "int (length run) - 1 \<le> max 0 (nTries params)"
    using Liap_run_length [OF run] by (simp add: Liap_init_def)
  have 2: "\<forall>k. Suc k < length run \<longrightarrow>
              stopAfter params = 0 \<or> int (length (L_solutions (run ! k))) < stopAfter params"
    using Liap_run_steps [OF run] by (simp add: Liap_cond_def)
  have 3: "run = [?s]" if "stopAfter params \<noteq> 0 \<and> stopAfter params \<le> int (length solutions)"
  proof -
    have "\<not> Liap_cond ext params ?s"
      using that by (simp add: Liap_cond_def Liap_init_def)
    then show ?thesis using run by (simp add: Liap_run_unfold_stop)
  qed
  have 4: "\<forall>k. Suc k < length run \<and> L_found (run ! Suc k) \<longrightarrow> Suc (Suc k) = length run"
    if "stopAfter params = 1"
    using Liap_run_first_success [OF run that] by blast
  have 5: "length sols = (if \<exists>k. Suc k < length run \<and> L_found (run ! Suc k) then 1 else 0)"
    if "stopAfter params = 1" "solutions = []"
    unfolding sols using Liap_run_stopAfter_one [OF run that(1)] that(2)
    by (simp add: Liap_init_def)
  have 6: "status_Get ext w' \<or> int (length run) - 1 = max 0 (nTries params) \<or>
              (stopAfter params \<noteq> 0 \<and> stopAfter params \<le> int (length sols))"
    unfolding sols w' using Liap_run_exit [OF run] by (simp add: Liap_init_def)
  from 6 have 7: "int (length run) - 1 = max 0 (nTries params)"
    if "stopAfter params = 0 \<and> \<not> status_Get ext w'"
    using that by blast
  from run sols w' 1 2 3 4 5 6 7 show ?thesis by blast
qed

lemma Liap_run_found_iff:
  assumes run: "Liap_run ext params s = Some run" and empty: "L_solutions s = []"
  shows "L_solutions (last run) \<noteq> [] \<longleftrightarrow> (\<exists>k. Suc k < length run \<and> L_found (run ! Suc k))"
proof -
  have ne: "run \<noteq> []" using Liap_run_hd [OF run] by simp
  then have last: "last run = run ! (length run - 1)" "length run - 1 < length run"
    by (simp_all add: last_conv_nth)
  show ?thesis
  proof
    assume a: "L_solutions (last run) \<noteq> []"
    show "\<exists>k. Suc k < length run \<and> L_found (run ! Suc k)"
    proof (rule ccontr)
      assume "\<not> (\<exists>k. Suc k < length run \<and> L_found (run ! Suc k))"
      then have "\<forall>j. Suc j < length run \<longrightarrow> \<not> L_found (run ! Suc j)" by blast
      then have "L_solutions (last run) = L_solutions s"
        using Liap_run_no_success [OF run] last by simp
      with a empty show False by simp
    qed
  next
    assume "\<exists>k. Suc k < length run \<and> L_found (run ! Suc k)"
    then obtain k where k: "Suc k < length run" "L_found (run ! Suc k)" by blast
    then have "Suc k \<le> length run - 1" by simp
    from Liap_run_success_nonempty [OF run k this last(2)] last(1)
    show "L_solutions (last run) \<noteq> []" by simp
  qed
qed

text \<open>
  Claim C6.  \<^verbatim>\<open>Liap\<close> returns true exactly when the solution list is not empty when it
  returns, which for a list that is empty at the start means that some attempt
  succeeded.  Every call of \<^verbatim>\<open>Value\<close> adds \<open>1\<close> to the counter of evaluations; the
  counter starts at \<open>0\<close>, grows in every attempt by the number of calls of \<^verbatim>\<open>Value\<close> that
  \<^verbatim>\<open>Powell\<close> makes, and never decreases along the run; \<^verbatim>\<open>nevals\<close> is its last value,
  and \<^verbatim>\<open>niters\<close> is \<open>0\<close>.
\<close>

theorem Liap_result:
  assumes "Liap ext E params start solutions w = Some (b, sols, nev, nit, w')"
  shows "b = (sols \<noteq> []) \<and> nit = 0 \<and>
         (\<forall>F v. F_nevals (snd (Value ext F v)) = F_nevals F + 1) \<and>
         (\<exists>run. Liap_run ext params (Liap_init E start solutions w) = Some run \<and>
            sols = L_solutions (last run) \<and>
            F_nevals (L_F (run ! 0)) = 0 \<and> nev = F_nevals (L_F (last run)) \<and>
            (\<forall>k. Suc k < length run \<longrightarrow>
               (\<exists>p r w2. Liap_attempt ext params (run ! k) = Some (p, r, w2) \<and>
                  L_F (run ! Suc k) =
                    foldl (\<lambda>F v. snd (Value ext F v)) (L_F (run ! k)) (evals r) \<and>
                  F_nevals (L_F (run ! Suc k)) =
                    F_nevals (L_F (run ! k)) + int (length (evals r)))) \<and>
            (\<forall>j k. j \<le> k \<and> k < length run \<longrightarrow>
               F_nevals (L_F (run ! j)) \<le> F_nevals (L_F (run ! k))) \<and>
            (solutions = [] \<longrightarrow> (b \<longleftrightarrow> (\<exists>k. Suc k < length run \<and> L_found (run ! Suc k)))))"
proof -
  let ?s = "Liap_init E start solutions w"
  from assms obtain run where run: "Liap_run ext params ?s = Some run"
    and b: "b = (L_solutions (last run) \<noteq> [])" and sols: "sols = L_solutions (last run)"
    and nev: "nev = F_nevals (L_F (last run))" and nit: "nit = 0"
    by (rule Liap_Some_run)
  have 1: "b = (sols \<noteq> [])" using b sols by simp
  have 2: "\<forall>F v. F_nevals (snd (Value ext F v)) = F_nevals F + 1"
    by (simp add: Value_def Let_def)
  have "run ! 0 = ?s" using Liap_run_hd [OF run] by (cases run) auto
  then have 3: "F_nevals (L_F (run ! 0)) = 0"
    by (simp add: Liap_init_def EFLiapFunc_new_def)
  have 4: "\<forall>k. Suc k < length run \<longrightarrow>
               (\<exists>p r w2. Liap_attempt ext params (run ! k) = Some (p, r, w2) \<and>
                  L_F (run ! Suc k) =
                    foldl (\<lambda>F v. snd (Value ext F v)) (L_F (run ! k)) (evals r) \<and>
                  F_nevals (L_F (run ! Suc k)) =
                    F_nevals (L_F (run ! k)) + int (length (evals r)))"
    using Liap_run_F_step [OF run] by blast
  have 5: "\<forall>j k. j \<le> k \<and> k < length run \<longrightarrow>
               F_nevals (L_F (run ! j)) \<le> F_nevals (L_F (run ! k))"
    using Liap_run_nevals_mono [OF run] by blast
  have 6: "b \<longleftrightarrow> (\<exists>k. Suc k < length run \<and> L_found (run ! Suc k))" if "solutions = []"
    unfolding b using Liap_run_found_iff [OF run] that by (simp add: Liap_init_def)
  from run sols nev nit 1 2 3 4 5 6 show ?thesis by blast
qed

lemma Liap_preset:
  "status_Get ext w \<Longrightarrow>
   Liap ext E params start solutions w = Some (solutions \<noteq> [], solutions, 0, 0, w)"
  by (simp add: Liap_def Liap_loop_run Liap_run_unfold_stop Liap_cond_def Liap_init_def
      NumEvals_def EFLiapFunc_new_def)

text \<open>
  Claim C5, as the code has it.  The status flag is tested in the loop condition before
  every attempt, and no attempt starts while it is set.  After every attempt the driver
  tests the flag again and resets it when it is set, before the loop condition is
  tested.  A flag that is set when the loop condition is tested ends the loop and is
  not reset: called with the flag set, \<^verbatim>\<open>Liap\<close> makes no attempt, returns whether the
  list it was given is non-empty (false for an empty list), appends no solution,
  reports \<open>0\<close> evaluations, and leaves the world, the flag included, as it was.
\<close>

theorem Liap_cancellation:
  "(status_Get ext w \<longrightarrow>
      Liap ext E params start solutions w = Some (solutions \<noteq> [], solutions, 0, 0, w)) \<and>
   (\<forall>b sols nev nit w'.
      Liap ext E params start solutions w = Some (b, sols, nev, nit, w') \<longrightarrow>
      (\<exists>run. Liap_run ext params (Liap_init E start solutions w) = Some run \<and>
         w' = L_world (last run) \<and>
         (\<forall>k. Suc k < length run \<longrightarrow>
            \<not> status_Get ext (L_world (run ! k)) \<and>
            (\<exists>p r w2. Liap_attempt ext params (run ! k) = Some (p, r, w2) \<and>
               L_world (run ! Suc k) =
                 (if status_Get ext w2 then status_Reset ext w2 else w2)))))"
proof (intro conjI impI allI)
  assume "status_Get ext w"
  then show "Liap ext E params start solutions w = Some (solutions \<noteq> [], solutions, 0, 0, w)"
    by (rule Liap_preset)
next
  fix b sols nev nit w'
  assume "Liap ext E params start solutions w = Some (b, sols, nev, nit, w')"
  then obtain run where run: "Liap_run ext params (Liap_init E start solutions w) = Some run"
    and w': "w' = L_world (last run)"
    by (rule Liap_Some_run)
  have "\<forall>k. Suc k < length run \<longrightarrow>
            \<not> status_Get ext (L_world (run ! k)) \<and>
            (\<exists>p r w2. Liap_attempt ext params (run ! k) = Some (p, r, w2) \<and>
               L_world (run ! Suc k) =
                 (if status_Get ext w2 then status_Reset ext w2 else w2))"
    using Liap_run_world_step [OF run] by blast
  with run w' show "\<exists>run. Liap_run ext params (Liap_init E start solutions w) = Some run \<and>
         w' = L_world (last run) \<and>
         (\<forall>k. Suc k < length run \<longrightarrow>
            \<not> status_Get ext (L_world (run ! k)) \<and>
            (\<exists>p r w2. Liap_attempt ext params (run ! k) = Some (p, r, w2) \<and>
               L_world (run ! Suc k) =
                 (if status_Get ext w2 then status_Reset ext w2 else w2)))"
    by blast
qed

text \<open>The example run: the first attempt fails, the second succeeds.\<close>

lemma ex_upt: "[Suc 0..<3] = [Suc 0, 2]" "[Suc 0..<2] = [Suc 0]"
  by (simp_all add: upt_rec)

lemma ex_draw1: "PickRandom_draw (Uniform ex_ext) 0 (Suc 0, c) = Some (1 / 4, (2, c))"
  by (subst PickRandom_draw.simps) (simp add: ex_ext_def)

lemma ex_draw2: "PickRandom_draw (Uniform ex_ext) (1 / 4) (2, c) = Some (1 / 4, (4, c))"
  apply (subst PickRandom_draw.simps)
  apply (simp add: ex_ext_def)
  apply (subst PickRandom_draw.simps)
  apply (simp add: ex_ext_def)
  done

lemma ex_draw3: "PickRandom_draw (Uniform ex_ext) 0 (4, c) = Some (7 / 8, (5, c))"
  by (subst PickRandom_draw.simps) (simp add: ex_ext_def)

lemma ex_PickRandomProfile:
  "PickRandomProfile ex_ext (ex_profile\<lparr>probs := v\<rparr>) (Suc 0, c) =
     Some (ex_profile\<lparr>probs := ex_random v\<rparr>, (5, c))"
  apply (simp add: PickRandomProfile_def PickRandom_infoset_def ex_profile_def ex_Efg_def
      ex_upt ex_draw1 ex_draw2 ex_draw3 ex_random_def)
  apply (simp add: numeral_2_eq_2)
  done

lemma ex_Lengths: "Lengths (ex_profile\<lparr>probs := v\<rparr>) = [3, 2]"
  by (simp add: Lengths_def ex_profile_def ex_Efg_def ex_upt)

lemma Value_snd:
  "snd (Value ext F v) =
     F\<lparr>F_nevals := F_nevals F + 1, F_p := (F_p F)\<lparr>probs := v\<rparr>,
       F_cpay := CondPayoff ext ((F_p F)\<lparr>probs := v\<rparr>)\<rparr>"
  by (simp add: Value_def Let_def)

lemma ex_Powell:
  "Powell ex_ext (n, c) p xi F params =
     (\<lparr>found = (2 \<le> n), p_out = ex_pure, xi_out = xi, fret = 0, iter = 1,
       evals = [probs p, ex_pure]\<rparr>, (Suc n, c))"
  by (simp add: ex_ext_def)

lemma ex_status: "status_Get ex_ext (n, c) = c" "status_Reset ex_ext (n, c) = (n, False)"
  by (simp_all add: ex_ext_def)

lemma ex_Liap:
  "Liap ex_ext ex_Efg EFLiapParams_new ex_profile [] (0, False) =
     Some (True, [ex_solution], 4, 0, (6, False))"
  by (simp add: Liap_def Liap_loop.simps Liap_cond_def Liap_iteration_def Liap_attempt_def
      Liap_init_def EFLiapParams_new_def EFLiapFunc_new_def Value_snd ex_Powell ex_status
      ex_PickRandomProfile [simplified] AddSolution_def ex_solution_def NumEvals_def Let_def)


lemma ex2_draw: "PickRandom_draw (Uniform ex_ext2) 0 (n, c) = Some (0, (Suc n, c))"
  by (subst PickRandom_draw.simps) (simp add: ex_ext2_def)

lemma ex2_PickRandomProfile:
  "PickRandomProfile ex_ext2 (ex_profile\<lparr>probs := v\<rparr>) (n, c) =
     Some (ex_profile\<lparr>probs := ex_random2 v\<rparr>, (Suc (Suc (Suc n)), c))"
  apply (simp add: PickRandomProfile_def PickRandom_infoset_def ex_profile_def ex_Efg_def
      ex_upt ex2_draw ex_random2_def)
  apply (simp add: numeral_2_eq_2)
  done

lemma ex2_Powell:
  "Powell ex_ext2 (n, c) p xi F params =
     (\<lparr>found = True, p_out = ex_pure, xi_out = xi, fret = 0, iter = 1,
       evals = [probs p]\<rparr>, (Suc n, c))"
  by (simp add: ex_ext2_def)

lemma ex2_status: "status_Get ex_ext2 (n, c) = c" "status_Reset ex_ext2 (n, c) = (n, False)"
  by (simp_all add: ex_ext2_def)

lemma ex2_Liap:
  "Liap ex_ext2 ex_Efg (EFLiapParams_new\<lparr>nTries := 3, stopAfter := 0\<rparr>) ex_profile []
     (0, False) =
     Some (True, [ex_solution, ex_solution, ex_solution], 3, 0, (9, False))"
  by (simp add: Liap_def Liap_loop.simps Liap_cond_def Liap_iteration_def Liap_attempt_def
      Liap_init_def EFLiapParams_new_def EFLiapFunc_new_def Value_snd ex2_Powell ex2_status
      ex2_PickRandomProfile [simplified] AddSolution_def ex_solution_def NumEvals_def Let_def)

theorem Liap_restart_loop_witness:
  "(\<exists>run. Liap_run ex_ext EFLiapParams_new (Liap_init ex_Efg ex_profile [] (0, False)) = Some run \<and>
     L_solutions (last run) = [ex_solution] \<and>
     int (length run) - 1 \<le> 10 \<and>
     (\<forall>k. Suc k < length run \<and> L_found (run ! Suc k) \<longrightarrow> Suc (Suc k) = length run) \<and>
     (\<exists>k. Suc k < length run \<and> L_found (run ! Suc k))) \<and>
   (\<exists>run. Liap_run ex_ext2 (EFLiapParams_new\<lparr>nTries := 3, stopAfter := 0\<rparr>)
             (Liap_init ex_Efg ex_profile [] (0, False)) = Some run \<and>
     int (length run) - 1 = 3 \<and> length (L_solutions (last run)) = 3)"
proof
  have p: "stopAfter EFLiapParams_new = 1 \<and> ([] :: BehavSolution list) = []"
    "nTries EFLiapParams_new = 10"
    by (simp_all add: EFLiapParams_new_def)
  from Liap_restart_loop [OF ex_Liap] obtain run where
    run: "Liap_run ex_ext EFLiapParams_new (Liap_init ex_Efg ex_profile [] (0, False)) = Some run"
      "[ex_solution] = L_solutions (last run)"
      "int (length run) - 1 \<le> max 0 (nTries EFLiapParams_new)"
      "stopAfter EFLiapParams_new = 1 \<and> ([] :: BehavSolution list) = [] \<longrightarrow>
         (\<forall>k. Suc k < length run \<and> L_found (run ! Suc k) \<longrightarrow> Suc (Suc k) = length run) \<and>
         length [ex_solution] = (if \<exists>k. Suc k < length run \<and> L_found (run ! Suc k) then 1 else 0)"
    by blast
  from run(4) p(1) have
    a: "\<forall>k. Suc k < length run \<and> L_found (run ! Suc k) \<longrightarrow> Suc (Suc k) = length run"
    and b: "length [ex_solution] = (if \<exists>k. Suc k < length run \<and> L_found (run ! Suc k) then 1 else 0)"
    by blast+
  have c: "\<exists>k. Suc k < length run \<and> L_found (run ! Suc k)"
  proof (rule ccontr)
    assume "\<not> (\<exists>k. Suc k < length run \<and> L_found (run ! Suc k))"
    with b show False by simp
  qed
  from run(1,2,3) p(2) a c
  show "\<exists>run. Liap_run ex_ext EFLiapParams_new (Liap_init ex_Efg ex_profile [] (0, False)) = Some run \<and>
     L_solutions (last run) = [ex_solution] \<and>
     int (length run) - 1 \<le> 10 \<and>
     (\<forall>k. Suc k < length run \<and> L_found (run ! Suc k) \<longrightarrow> Suc (Suc k) = length run) \<and>
     (\<exists>k. Suc k < length run \<and> L_found (run ! Suc k))"
    by (intro exI [of _ run]) simp
next
  let ?ps = "EFLiapParams_new\<lparr>nTries := 3, stopAfter := 0\<rparr>"
  have q: "stopAfter ?ps = 0 \<and> \<not> status_Get ex_ext2 (9, False)" "max 0 (nTries ?ps) = 3"
    by (simp_all add: ex2_status)
  from Liap_restart_loop [OF ex2_Liap] obtain run where
    run: "Liap_run ex_ext2 ?ps (Liap_init ex_Efg ex_profile [] (0, False)) = Some run"
      "[ex_solution, ex_solution, ex_solution] = L_solutions (last run)"
      "stopAfter ?ps = 0 \<and> \<not> status_Get ex_ext2 (9, False) \<longrightarrow>
         int (length run) - 1 = max 0 (nTries ?ps)"
    by blast
  from run(3) q have "int (length run) - 1 = 3" by simp
  moreover from run(2) have "length (L_solutions (last run)) = 3"
    by (metis length_Cons list.size(3) numeral_3_eq_3)
  ultimately show "\<exists>run. Liap_run ex_ext2 ?ps (Liap_init ex_Efg ex_profile [] (0, False)) = Some run \<and>
     int (length run) - 1 = 3 \<and> length (L_solutions (last run)) = 3"
    using run(1) by blast
qed

theorem Liap_result_witness:
  "\<exists>run. Liap_run ex_ext EFLiapParams_new (Liap_init ex_Efg ex_profile [] (0, False)) = Some run \<and>
     L_solutions (last run) = [ex_solution] \<and>
     F_nevals (L_F (run ! 0)) = 0 \<and> F_nevals (L_F (last run)) = 4 \<and>
     (\<exists>k. Suc k < length run \<and> L_found (run ! Suc k))"
proof -
  from Liap_result [OF ex_Liap] obtain run where
    run: "Liap_run ex_ext EFLiapParams_new (Liap_init ex_Efg ex_profile [] (0, False)) = Some run"
      "[ex_solution] = L_solutions (last run)"
      "F_nevals (L_F (run ! 0)) = 0" "4 = F_nevals (L_F (last run))"
      "([] :: BehavSolution list) = [] \<longrightarrow> (True \<longleftrightarrow> (\<exists>k. Suc k < length run \<and> L_found (run ! Suc k)))"
    by blast
  then show ?thesis
    by (intro exI [of _ run]) simp
qed

lemma ex_Liap_cancelled:
  "Liap ex_ext ex_Efg params ex_profile [] (0, True) = Some (False, [], 0, 0, (0, True))"
  using Liap_preset [of ex_ext "(0, True)" ex_Efg params ex_profile "[]"]
  by (simp add: ex_status)

theorem Liap_cancellation_witness:
  "Liap ex_ext ex_Efg EFLiapParams_new ex_profile [] (0, True) = Some (False, [], 0, 0, (0, True)) \<and>
   (\<exists>run. Liap_run ex_ext EFLiapParams_new (Liap_init ex_Efg ex_profile [] (0, False)) = Some run \<and>
      L_world (last run) = (6, False) \<and>
      (\<forall>k. Suc k < length run \<longrightarrow> \<not> status_Get ex_ext (L_world (run ! k))))"
proof -
  note spec = Liap_cancellation [of ex_ext "(0, True)" ex_Efg EFLiapParams_new ex_profile "[]"]
  have 1: "Liap ex_ext ex_Efg EFLiapParams_new ex_profile [] (0, True) = Some (False, [], 0, 0, (0, True))"
    using spec by (simp add: ex_status)
  note spec2 = Liap_cancellation [of ex_ext "(0, False)" ex_Efg EFLiapParams_new ex_profile "[]"]
  from spec2 ex_Liap obtain run where
    "Liap_run ex_ext EFLiapParams_new (Liap_init ex_Efg ex_profile [] (0, False)) = Some run"
    "(6, False) = L_world (last run)"
    "\<forall>k. Suc k < length run \<longrightarrow> \<not> status_Get ex_ext (L_world (run ! k))"
    by blast
  then have "\<exists>run. Liap_run ex_ext EFLiapParams_new (Liap_init ex_Efg ex_profile [] (0, False)) = Some run \<and>
      L_world (last run) = (6, False) \<and>
      (\<forall>k. Suc k < length run \<longrightarrow> \<not> status_Get ex_ext (L_world (run ! k)))"
    by (intro exI [of _ run]) simp
  with 1 show ?thesis by blast
qed

text \<open>
  Claim C5 as it is stated says that the driver resets a cancellation signal it has
  consumed, so that one request does not abort later calls on the same status handle.
  In the example the flag is set before a call with \<^verbatim>\<open>nTries = 1\<close>: the call makes no
  attempt and returns the world as it was, the flag still set, although a reset would
  clear it.  The next call on the same handle is this same call once more, and is
  aborted as well; from the world with the flag cleared the driver finds a solution.
\<close>

theorem Liap_cancellation_counterexample:
  "status_Get ex_ext (0, True) \<and>
   Liap ex_ext ex_Efg (EFLiapParams_new\<lparr>nTries := 1\<rparr>) ex_profile [] (0, True)
     = Some (False, [], 0, 0, (0, True)) \<and>
   status_Reset ex_ext (0, True) = (0, False) \<and>
   Liap ex_ext ex_Efg EFLiapParams_new ex_profile [] (0, False)
     = Some (True, [ex_solution], 4, 0, (6, False))"
  by (simp add: ex_status ex_Liap_cancelled ex_Liap)

text \<open>\<^verbatim>\<open>Liap\<close> returns whenever every call of \<^verbatim>\<open>PickRandomProfile\<close> does.\<close>

lemma Liap_loop_returns:
  "\<forall>p w. PickRandomProfile ext p w \<noteq> None \<Longrightarrow> Liap_loop ext params s \<noteq> None"
proof (induction ext params s rule: Liap_loop.induct)
  case (1 ext params s)
  show ?case
  proof (cases "Liap_cond ext params s")
    case False
    then show ?thesis by (subst Liap_loop.simps) simp
  next
    case True
    have "PickRandomProfile ext (L_p s) (L_world s) \<noteq> None"
      using "1.prems" by blast
    then have "Liap_attempt ext params s \<noteq> None"
      by (auto simp: Liap_attempt_def Let_def split: option.splits prod.splits)
    then obtain s' where s': "Liap_iteration ext params s = Some s'"
      by (auto simp: Liap_iteration_def Let_def split: option.splits prod.splits)
    then have "Liap_loop ext params s = Liap_loop ext params s'"
      using True by (subst Liap_loop.simps) simp
    then show ?thesis using "1.IH" [OF True s' "1.prems"] by simp
  qed
qed

lemma Liap_returns:
  "\<forall>p w. PickRandomProfile ext p w \<noteq> None \<Longrightarrow>
   Liap ext E params start solutions w \<noteq> None"
  using Liap_loop_returns [of ext params "Liap_init E start solutions w"]
  by (auto simp: Liap_def)

section \<open>Properties of the constructor of EFLiapBySubgame\<close>

lemma scan_subroots_bounds:
  "i \<le> Suc (length xs) \<Longrightarrow> i \<le> scan_subroots r xs i \<and> scan_subroots r xs i \<le> Suc (length xs)"
proof (induction r xs i rule: scan_subroots.induct)
  case (1 r xs i)
  show ?case
  proof (cases "i \<le> length xs \<and> r \<noteq> xs ! (i - 1)")
    case True
    then have "scan_subroots r xs i = scan_subroots r xs (i + 1)"
      by (subst scan_subroots.simps) simp
    moreover have "i + 1 \<le> scan_subroots r xs (i + 1) \<and> scan_subroots r xs (i + 1) \<le> Suc (length xs)"
      using "1.IH" True by simp
    ultimately show ?thesis by simp
  next
    case False
    then have "scan_subroots r xs i = i"
      by (subst scan_subroots.simps) auto
    then show ?thesis using "1.prems" by simp
  qed
qed

lemma scan_subroots_skips:
  "i \<le> k \<Longrightarrow> k < scan_subroots r xs i \<Longrightarrow> k \<le> length xs \<and> xs ! (k - 1) \<noteq> r"
proof (induction r xs i rule: scan_subroots.induct)
  case (1 r xs i)
  show ?case
  proof (cases "i \<le> length xs \<and> r \<noteq> xs ! (i - 1)")
    case True
    then have eq: "scan_subroots r xs i = scan_subroots r xs (i + 1)"
      by (subst scan_subroots.simps) simp
    show ?thesis
    proof (cases "k = i")
      case True
      with \<open>i \<le> length xs \<and> r \<noteq> xs ! (i - 1)\<close> show ?thesis by auto
    next
      case False
      then have "i + 1 \<le> k" using "1.prems" by simp
      then show ?thesis using "1.IH" True "1.prems" eq by simp
    qed
  next
    case False
    then have "scan_subroots r xs i = i"
      by (subst scan_subroots.simps) auto
    then show ?thesis using "1.prems" by simp
  qed
qed

lemma scan_subroots_hit:
  "Suc 0 \<le> i \<Longrightarrow> scan_subroots r xs i \<le> length xs \<Longrightarrow> xs ! (scan_subroots r xs i - 1) = r"
proof (induction r xs i rule: scan_subroots.induct)
  case (1 r xs i)
  show ?case
  proof (cases "i \<le> length xs \<and> r \<noteq> xs ! (i - 1)")
    case True
    then have eq: "scan_subroots r xs i = scan_subroots r xs (i + 1)"
      by (subst scan_subroots.simps) simp
    show ?thesis using "1.IH" True "1.prems" eq by simp
  next
    case False
    then have eq: "scan_subroots r xs i = i"
      by (subst scan_subroots.simps) auto
    then show ?thesis using "1.prems" False by auto
  qed
qed

lemma scan_subroots_found_iff:
  "scan_subroots r xs (Suc 0) \<le> length xs \<longleftrightarrow> r \<in> set xs"
proof
  assume a: "scan_subroots r xs (Suc 0) \<le> length xs"
  have "Suc 0 \<le> scan_subroots r xs (Suc 0)"
    using scan_subroots_bounds [of "Suc 0" xs r] by simp
  with a have "xs ! (scan_subroots r xs (Suc 0) - 1) = r" "scan_subroots r xs (Suc 0) - 1 < length xs"
    using scan_subroots_hit [of "Suc 0" r xs] by simp_all
  then show "r \<in> set xs" by (metis nth_mem)
next
  assume "r \<in> set xs"
  then obtain n where n: "n < length xs" "xs ! n = r"
    by (auto simp: in_set_conv_nth)
  show "scan_subroots r xs (Suc 0) \<le> length xs"
  proof (rule ccontr)
    assume "\<not> scan_subroots r xs (Suc 0) \<le> length xs"
    then have "Suc n < scan_subroots r xs (Suc 0)" using n by simp
    then have "xs ! (Suc n - 1) \<noteq> r"
      using scan_subroots_skips [of "Suc 0" "Suc n" r xs] by simp
    then show False using n by simp
  qed
qed

lemma scan_subroots_first_index:
  assumes "r \<in> set xs"
  shows "first_index xs r (scan_subroots r xs (Suc 0))"
proof -
  have le: "scan_subroots r xs (Suc 0) \<le> length xs"
    using assms by (simp add: scan_subroots_found_iff)
  have ge: "Suc 0 \<le> scan_subroots r xs (Suc 0)"
    using scan_subroots_bounds [of "Suc 0" xs r] by simp
  have hit: "xs ! (scan_subroots r xs (Suc 0) - 1) = r"
    using scan_subroots_hit [of "Suc 0" r xs] le by simp
  have skip: "xs ! (k - 1) \<noteq> r" if "Suc 0 \<le> k" "k < scan_subroots r xs (Suc 0)" for k
    using scan_subroots_skips [of "Suc 0" k r xs] that by simp
  show ?thesis
    unfolding first_index_def using le ge hit skip by simp
qed

lemma ctor_infosets_Inr:
  "(\<forall>iset\<in>set isets. FirstMemberSubgameRoot E pl iset \<in> set subroots) \<Longrightarrow>
   ctor_infosets E subroots pl isets m =
     Inr (\<lambda>pl' iset'. if pl' = pl \<and> iset' \<in> set isets
            then scan_subroots (FirstMemberSubgameRoot E pl' iset') subroots (Suc 0) else m pl' iset')"
proof (induction isets arbitrary: m)
  case Nil
  then show ?case by simp
next
  case (Cons iset isets)
  let ?idx = "scan_subroots (FirstMemberSubgameRoot E pl iset) subroots (Suc 0)"
  have found: "?idx \<le> length subroots"
    using Cons.prems by (simp add: scan_subroots_found_iff)
  have rest: "\<forall>iset\<in>set isets. FirstMemberSubgameRoot E pl iset \<in> set subroots"
    using Cons.prems by simp
  have "ctor_infosets E subroots pl (iset # isets) m =
          ctor_infosets E subroots pl isets (m(pl := (m pl)(iset := ?idx)))"
    using found by (simp add: Let_def)
  also have "\<dots> = Inr (\<lambda>pl' iset'. if pl' = pl \<and> iset' \<in> set isets
            then scan_subroots (FirstMemberSubgameRoot E pl' iset') subroots (Suc 0)
            else (m(pl := (m pl)(iset := ?idx))) pl' iset')"
    by (rule Cons.IH [OF rest])
  also have "\<dots> = Inr (\<lambda>pl' iset'. if pl' = pl \<and> iset' \<in> set (iset # isets)
            then scan_subroots (FirstMemberSubgameRoot E pl' iset') subroots (Suc 0) else m pl' iset')"
    by (rule arg_cong [where f = Inr], intro ext) simp
  finally show ?case .
qed

lemma ctor_infosets_Inl:
  "\<exists>iset\<in>set isets. FirstMemberSubgameRoot E pl iset \<notin> set subroots \<Longrightarrow>
   ctor_infosets E subroots pl isets m = Inl AssertionFailure"
proof (induction isets arbitrary: m)
  case Nil
  then show ?case by simp
next
  case (Cons iset isets)
  show ?case
  proof (cases "FirstMemberSubgameRoot E pl iset \<in> set subroots")
    case True
    then have "\<exists>iset\<in>set isets. FirstMemberSubgameRoot E pl iset \<notin> set subroots"
      using Cons.prems by auto
    then have "\<And>m. ctor_infosets E subroots pl isets m = Inl AssertionFailure"
      using Cons.IH by blast
    then show ?thesis by (simp add: Let_def)
  next
    case False
    then show ?thesis by (simp add: Let_def scan_subroots_found_iff)
  qed
qed

lemma ctor_players_Inr:
  "(\<forall>pl\<in>set pls. \<forall>iset\<in>{1..NumInfosets E pl}. FirstMemberSubgameRoot E pl iset \<in> set subroots) \<Longrightarrow>
   ctor_players E subroots pls m =
     Inr (\<lambda>pl iset. if pl \<in> set pls \<and> iset \<in> {1..NumInfosets E pl}
            then scan_subroots (FirstMemberSubgameRoot E pl iset) subroots (Suc 0) else m pl iset)"
proof (induction pls arbitrary: m)
  case Nil
  then show ?case by simp
next
  case (Cons pl pls)
  have 1: "ctor_infosets E subroots pl [1..<Suc (NumInfosets E pl)] m =
     Inr (\<lambda>pl' iset'. if pl' = pl \<and> iset' \<in> set [1..<Suc (NumInfosets E pl)]
            then scan_subroots (FirstMemberSubgameRoot E pl' iset') subroots (Suc 0) else m pl' iset')"
    using Cons.prems by (intro ctor_infosets_Inr) auto
  have 2: "\<forall>pl\<in>set pls. \<forall>iset\<in>{1..NumInfosets E pl}. FirstMemberSubgameRoot E pl iset \<in> set subroots"
    using Cons.prems by simp
  have 3: "set [1..<Suc n] = {1..n}" for n :: nat
    by auto
  have "ctor_players E subroots (pl # pls) m =
     ctor_players E subroots pls (\<lambda>pl' iset'. if pl' = pl \<and> iset' \<in> set [1..<Suc (NumInfosets E pl)]
            then scan_subroots (FirstMemberSubgameRoot E pl' iset') subroots (Suc 0) else m pl' iset')"
    unfolding ctor_players.simps 1 by simp
  also have "\<dots> = Inr (\<lambda>pl' iset. if pl' \<in> set pls \<and> iset \<in> {1..NumInfosets E pl'}
            then scan_subroots (FirstMemberSubgameRoot E pl' iset) subroots (Suc 0)
            else (\<lambda>pl' iset'. if pl' = pl \<and> iset' \<in> set [1..<Suc (NumInfosets E pl)]
            then scan_subroots (FirstMemberSubgameRoot E pl' iset') subroots (Suc 0) else m pl' iset') pl' iset)"
    by (rule Cons.IH [OF 2])
  also have "\<dots> = Inr (\<lambda>pl' iset. if pl' \<in> set (pl # pls) \<and> iset \<in> {1..NumInfosets E pl'}
            then scan_subroots (FirstMemberSubgameRoot E pl' iset) subroots (Suc 0) else m pl' iset)"
    unfolding 3 by (rule arg_cong [where f = Inr], intro ext) auto
  finally show ?case .
qed

lemma ctor_players_Inl:
  "\<exists>pl\<in>set pls. \<exists>iset\<in>{1..NumInfosets E pl}. FirstMemberSubgameRoot E pl iset \<notin> set subroots \<Longrightarrow>
   ctor_players E subroots pls m = Inl AssertionFailure"
proof (induction pls arbitrary: m)
  case Nil
  then show ?case by simp
next
  case (Cons pl pls)
  show ?case
  proof (cases "\<exists>iset\<in>{1..NumInfosets E pl}. FirstMemberSubgameRoot E pl iset \<notin> set subroots")
    case True
    then have "ctor_infosets E subroots pl [1..<Suc (NumInfosets E pl)] m = Inl AssertionFailure"
      by (intro ctor_infosets_Inl) auto
    then show ?thesis by (simp del: upt_Suc)
  next
    case False
    then have "\<exists>pl\<in>set pls. \<exists>iset\<in>{1..NumInfosets E pl}. FirstMemberSubgameRoot E pl iset \<notin> set subroots"
      using Cons.prems by auto
    then have 1: "\<And>m. ctor_players E subroots pls m = Inl AssertionFailure"
      using Cons.IH by blast
    have "\<forall>iset\<in>set [1..<Suc (NumInfosets E pl)]. FirstMemberSubgameRoot E pl iset \<in> set subroots"
      using False by auto
    from ctor_infosets_Inr [OF this, of m] show ?thesis
      by (simp add: 1 del: upt_Suc)
  qed
qed

text \<open>
  Claim C8.  The constructor of \<^verbatim>\<open>EFLiapBySubgame\<close> succeeds exactly when, for every
  player and every information set of the player, the subgame root of the first member
  node occurs in the list of marked subgame roots; otherwise the assertion fails.  When
  it succeeds, the entry of \<^verbatim>\<open>infoset_subgames\<close> for every such pair is the position of
  the first marked root equal to that subgame root.
\<close>

theorem EFLiapBySubgame_new_spec:
  "((\<exists>S. EFLiapBySubgame_new E p s fresh = Inr S) \<longleftrightarrow>
      (\<forall>pl\<in>{1..NumPlayers E}. \<forall>iset\<in>{1..NumInfosets E pl}.
         FirstMemberSubgameRoot E pl iset \<in> set (MarkedSubgameRoots E))) \<and>
   (\<forall>e. EFLiapBySubgame_new E p s fresh = Inl e \<longrightarrow> e = AssertionFailure) \<and>
   (\<forall>S. EFLiapBySubgame_new E p s fresh = Inr S \<longrightarrow>
      (\<forall>pl\<in>{1..NumPlayers E}. \<forall>iset\<in>{1..NumInfosets E pl}.
         first_index (MarkedSubgameRoots E) (FirstMemberSubgameRoot E pl iset)
           (S_infoset_subgames S pl iset)))"
proof (cases "\<forall>pl\<in>{1..NumPlayers E}. \<forall>iset\<in>{1..NumInfosets E pl}.
         FirstMemberSubgameRoot E pl iset \<in> set (MarkedSubgameRoots E)")
  case True
  then have "\<forall>pl\<in>set [1..<Suc (NumPlayers E)]. \<forall>iset\<in>{1..NumInfosets E pl}.
         FirstMemberSubgameRoot E pl iset \<in> set (MarkedSubgameRoots E)"
    by auto
  from ctor_players_Inr [OF this, of fresh]
  have "EFLiapBySubgame_new E p s fresh =
     Inr \<lparr>S_nevals = 0, S_subgame_number = 0,
       S_infoset_subgames = (\<lambda>pl iset. if pl \<in> set [1..<Suc (NumPlayers E)] \<and> iset \<in> {1..NumInfosets E pl}
            then scan_subroots (FirstMemberSubgameRoot E pl iset) (MarkedSubgameRoots E) (Suc 0) else fresh pl iset),
       S_Lengths = NumInfosets E, S_params = p, S_start = s\<rparr>"
    by (simp add: EFLiapBySubgame_new_def del: upt_Suc)
  with True show ?thesis
    by (auto simp: scan_subroots_first_index simp del: upt_Suc)
next
  case False
  then have "\<exists>pl\<in>set [1..<Suc (NumPlayers E)]. \<exists>iset\<in>{1..NumInfosets E pl}.
         FirstMemberSubgameRoot E pl iset \<notin> set (MarkedSubgameRoots E)"
    by auto
  from ctor_players_Inl [OF this, of fresh]
  have "EFLiapBySubgame_new E p s fresh = Inl AssertionFailure"
    by (simp add: EFLiapBySubgame_new_def del: upt_Suc)
  with False show ?thesis
    by simp
qed

theorem EFLiapBySubgame_new_spec_witness:
  "(\<exists>S. EFLiapBySubgame_new ex_Efg EFLiapParams_new ex_profile (\<lambda>_ _. 0) = Inr S \<and>
        S_infoset_subgames S 1 1 = 2 \<and> S_infoset_subgames S 1 2 = 1) \<and>
   EFLiapBySubgame_new (ex_Efg\<lparr>MarkedSubgameRoots := [10]\<rparr>) EFLiapParams_new ex_profile (\<lambda>_ _. 0)
     = Inl AssertionFailure"
proof
  have all: "\<forall>pl\<in>{1..NumPlayers ex_Efg}. \<forall>iset\<in>{1..NumInfosets ex_Efg pl}.
         FirstMemberSubgameRoot ex_Efg pl iset \<in> set (MarkedSubgameRoots ex_Efg)"
    by (simp add: ex_Efg_def)
  note spec = EFLiapBySubgame_new_spec [of ex_Efg EFLiapParams_new ex_profile "\<lambda>_ _. 0"]
  from spec all obtain S where
    S: "EFLiapBySubgame_new ex_Efg EFLiapParams_new ex_profile (\<lambda>_ _. 0) = Inr S"
    by blast
  with spec have fi: "\<forall>pl\<in>{1..NumPlayers ex_Efg}. \<forall>iset\<in>{1..NumInfosets ex_Efg pl}.
         first_index (MarkedSubgameRoots ex_Efg) (FirstMemberSubgameRoot ex_Efg pl iset)
           (S_infoset_subgames S pl iset)"
    by blast
  have "first_index [10, 20, 10] 20 (S_infoset_subgames S 1 1)"
    using fi by (simp add: ex_Efg_def ex_intervals)
  then have a: "S_infoset_subgames S 1 1 = 2"
    by (auto simp: first_index_def nth_Cons split: nat.splits)
  have f: "first_index [10, 20, 10] 10 (S_infoset_subgames S 1 2)"
    using fi by (simp add: ex_Efg_def ex_intervals)
  have b: "S_infoset_subgames S 1 2 = 1"
  proof (rule ccontr)
    assume "S_infoset_subgames S 1 2 \<noteq> 1"
    with f have "1 < S_infoset_subgames S 1 2"
      by (simp add: first_index_def)
    with f have "[10, 20, 10 :: nat] ! (1 - 1) \<noteq> 10"
      unfolding first_index_def by blast
    then show False by simp
  qed
  show "\<exists>S. EFLiapBySubgame_new ex_Efg EFLiapParams_new ex_profile (\<lambda>_ _. 0) = Inr S \<and>
        S_infoset_subgames S 1 1 = 2 \<and> S_infoset_subgames S 1 2 = 1"
    using S a b by blast
next
  let ?E = "ex_Efg\<lparr>MarkedSubgameRoots := [10]\<rparr>"
  note spec = EFLiapBySubgame_new_spec [of ?E EFLiapParams_new ex_profile "\<lambda>_ _. 0"]
  have "\<not> (\<forall>pl\<in>{1..NumPlayers ?E}. \<forall>iset\<in>{1..NumInfosets ?E pl}.
         FirstMemberSubgameRoot ?E pl iset \<in> set (MarkedSubgameRoots ?E))"
    by (simp add: ex_Efg_def)
  with spec have "\<not> (\<exists>S. EFLiapBySubgame_new ?E EFLiapParams_new ex_profile (\<lambda>_ _. 0) = Inr S)"
    by blast
  then obtain e where "EFLiapBySubgame_new ?E EFLiapParams_new ex_profile (\<lambda>_ _. 0) = Inl e"
    by (cases "EFLiapBySubgame_new ?E EFLiapParams_new ex_profile (\<lambda>_ _. 0)") auto
  with spec show "EFLiapBySubgame_new ?E EFLiapParams_new ex_profile (\<lambda>_ _. 0) = Inl AssertionFailure"
    by blast
qed

section \<open>Properties of SolveSubgame\<close>














section \<open>Properties of the rectangular array\<close>

text \<open>
  Claim C9.  For an array with row bounds \<open>[minrow, maxrow]\<close> and column bounds
  \<open>[mincol, maxcol]\<close>, the element access \<^verbatim>\<open>operator()(r, c)\<close> raises if and only if
  \<open>r < minrow\<close> or \<open>r > maxrow\<close> or \<open>c < mincol\<close> or \<open>c > maxcol\<close>; the exception is
  \<^verbatim>\<open>gbtIndexException\<close>; and when it does not raise it returns the element stored at
  \<open>(r, c)\<close> and leaves the array as it was.
\<close>

theorem operator_call_spec:
  "((\<exists>e. operator_call A r c = Inl e) \<longleftrightarrow>
      (r < minrow A \<or> r > maxrow A \<or> c < mincol A \<or> c > maxcol A)) \<and>
   (\<forall>e. operator_call A r c = Inl e \<longrightarrow> e = gbtIndexException) \<and>
   (\<not> (r < minrow A \<or> r > maxrow A \<or> c < mincol A \<or> c > maxcol A) \<longrightarrow>
      operator_call A r c = Inr (data A r c, A))"
  by (auto simp: operator_call_def Check_def CheckRow_def CheckColumn_def)

theorem operator_call_spec_witness:
  "operator_call \<lparr>minrow = 1, maxrow = 2, mincol = 0, maxcol = 3, data = (\<lambda>r c. r * 10 + c)\<rparr> 2 3
     = Inr (23, \<lparr>minrow = 1, maxrow = 2, mincol = 0, maxcol = 3, data = (\<lambda>r c. r * 10 + c)\<rparr>) \<and>
   (\<exists>e. operator_call \<lparr>minrow = 1, maxrow = 2, mincol = 0, maxcol = 3, data = (\<lambda>r c. r * 10 + c)\<rparr> 3 3
     = Inl e)"
  using operator_call_spec [of "\<lparr>minrow = 1, maxrow = 2, mincol = 0, maxcol = 3, data = (\<lambda>r c. r * 10 + c)\<rparr>" 2 3]
    operator_call_spec [of "\<lparr>minrow = 1, maxrow = 2, mincol = 0, maxcol = 3, data = (\<lambda>r c. r * 10 + c)\<rparr>" 3 3]
  by simp

text \<open>
  Claim C10 says that \<^verbatim>\<open>Transpose()\<close> never raises and returns the transposed array.
  The inner loop of the source runs the column index up to \<^verbatim>\<open>maxrow\<close>, not
  \<^verbatim>\<open>maxcol\<close>.  On an array with rows \<open>1..2\<close> and the single column \<open>1\<close> the second
  round of the inner loop reads \<^verbatim>\<open>(*this)(1, 2)\<close>, which is outside the columns, and
  \<^verbatim>\<open>Transpose\<close> raises \<^verbatim>\<open>gbtIndexException\<close>, whatever the array holds.
\<close>

theorem Transpose_raises:
  "Transpose \<lparr>minrow = 1, maxrow = 2, mincol = 1, maxcol = 1, data = d\<rparr> fresh
     = Inl gbtIndexException"
  by (simp add: Transpose_def gbtRectArray_new_def operator_call_def operator_call_assign_def
      Check_def CheckRow_def CheckColumn_def Transpose_rows.simps Transpose_cols.simps)

text \<open>
  The other way round, with the row \<open>1\<close> and the columns \<open>1..2\<close>, the inner loop stops
  after column \<open>1\<close>: nothing is raised, and the entry \<open>(2, 1)\<close> of the result is what
  the fresh storage held, not the entry \<open>(1, 2)\<close> of the array.
\<close>

lemma Transpose_skips:
  "Transpose \<lparr>minrow = 1, maxrow = 1, mincol = 1, maxcol = 2, data = d\<rparr> fresh =
     Inr \<lparr>minrow = 1, maxrow = 2, mincol = 1, maxcol = 1,
          data = fresh(1 := (fresh 1)(1 := d 1 1))\<rparr>"
  by (simp add: Transpose_def gbtRectArray_new_def operator_call_def operator_call_assign_def
      Check_def CheckRow_def CheckColumn_def Transpose_rows.simps Transpose_cols.simps)

end
